theory Spec2Isabelle
  imports Main "HOL-Library.Word"
begin

section \<open>Spatter: the Serial execution context of Configuration.hh\<close>

text \<open>
  A shallow embedding of \<^verbatim>\<open>src/Spatter/Configuration.hh\<close>: the class
  \<^verbatim>\<open>ConfigurationBase\<close> and its specialisation \<^verbatim>\<open>Configuration<Spatter::Serial>\<close>.
  The platform is LP64: \<^verbatim>\<open>size_t\<close> and \<^verbatim>\<open>unsigned long\<close> are 64-bit words whose
  arithmetic wraps, \<^verbatim>\<open>sizeof(size_t)\<close> is 8, and \<^verbatim>\<open>double\<close> is IEEE-754 binary64
  with round-to-nearest-even. A \<^verbatim>\<open>std::vector\<close> is a list. Text written to
  \<^verbatim>\<open>std::cout\<close> and \<^verbatim>\<open>std::cerr\<close> is not modelled, except for the figures of
  \<^verbatim>\<open>report\<close>; the \<^verbatim>\<open>MPI_Barrier\<close> of a \<^verbatim>\<open>USE_MPI\<close> build changes no
  member of the object and is left out.
\<close>

subsection \<open>Double precision numbers\<close>

text \<open>
  \<open>DFinite s m e\<close> is the number \<open>(-1)\<^sup>s * m * 2\<^sup>e\<close>. The arithmetic below accepts any
  such triple and rounds what it computes to the binary64 format, whose triples have
  \<open>m < 2\<^sup>5\<^sup>3\<close>, \<open>-1074 \<le> e \<le> 971\<close>, and \<open>2\<^sup>5\<^sup>2 \<le> m\<close> unless \<open>e = -1074\<close>; a
  result beyond the largest of them is an infinity.
\<close>

datatype double = DFinite bool nat int | DInf bool | DNaN

definition dzero :: double where
  "dzero = DFinite False 0 (- 1074)"

fun bit_len :: "nat \<Rightarrow> nat" where
  "bit_len n = (if n = 0 then 0 else Suc (bit_len (n div 2)))"

declare bit_len.simps [simp del]

text \<open>The integer nearest to \<open>p / q\<close>, ties to the even one.\<close>

definition rne :: "nat \<Rightarrow> nat \<Rightarrow> nat" where
  "rne p q =
     (let n = p div q; r = p mod q
      in if 2 * r < q then n
         else if q < 2 * r then n + 1
         else if even n then n else n + 1)"

text \<open>
  The binary64 number nearest to the positive rational \<open>a / b\<close>, with sign \<open>sg\<close>:
  \<open>fl\<close> is \<open>\<lfloor>log\<^sub>2 (a / b)\<rfloor>\<close>, \<open>e\<close> the exponent of the last place (never below
  that of the subnormal numbers), and the significand is rounded to that place.
\<close>

definition round_pos :: "bool \<Rightarrow> nat \<Rightarrow> nat \<Rightarrow> double" where
  "round_pos sg a b =
     (let k = int (bit_len a) - int (bit_len b);
          fl = (if b * 2 ^ nat k \<le> a * 2 ^ nat (- k) then k else k - 1);
          e = max (fl - 52) (- 1074);
          m = rne (a * 2 ^ nat (- e)) (b * 2 ^ nat e)
      in if m = 2 ^ 53
         then (if 971 < e + 1 then DInf sg else DFinite sg (2 ^ 52) (e + 1))
         else if 971 < e then DInf sg else DFinite sg m e)"

text \<open>The conversion of an unsigned integer to \<^verbatim>\<open>double\<close>.\<close>

definition double_of_nat :: "nat \<Rightarrow> double" where
  "double_of_nat n = (if n = 0 then dzero else round_pos False n 1)"

text \<open>The operator \<^verbatim>\<open>/\<close> on \<^verbatim>\<open>double\<close>.\<close>

fun ddiv :: "double \<Rightarrow> double \<Rightarrow> double" where
  "ddiv DNaN y = DNaN"
| "ddiv x DNaN = DNaN"
| "ddiv (DInf s) (DInf t) = DNaN"
| "ddiv (DInf s) (DFinite t m e) = DInf (s \<noteq> t)"
| "ddiv (DFinite s m e) (DInf t) = DFinite (s \<noteq> t) 0 (- 1074)"
| "ddiv (DFinite s m1 e1) (DFinite t m2 e2) =
     (if m2 = 0 then (if m1 = 0 then DNaN else DInf (s \<noteq> t))
      else if m1 = 0 then DFinite (s \<noteq> t) 0 (- 1074)
      else round_pos (s \<noteq> t) (m1 * 2 ^ nat (e1 - e2)) (m2 * 2 ^ nat (e2 - e1)))"

subsection \<open>The timer\<close>

text \<open>
  Modelled from the spec: \<^verbatim>\<open>Spatter/Timer.hh\<close> is not part of the sources. Section 4.4:
  \<^verbatim>\<open>start()\<close> and \<^verbatim>\<open>stop()\<close> must be paired, a \<^verbatim>\<open>stop()\<close> without a \<^verbatim>\<open>start()\<close>
  is a programming error, and \<^verbatim>\<open>seconds()\<close> returns the duration of the most recently
  completed bracket. The duration that the monotonic clock measures between a
  \<^verbatim>\<open>start()\<close> and its \<^verbatim>\<open>stop()\<close> comes from outside the program: it is the argument
  \<open>d\<close> of \<open>timer_stop\<close>.
\<close>

record Timer =
  running :: bool
  bracket :: double

definition timer_init :: Timer where
  "timer_init = \<lparr>running = False, bracket = dzero\<rparr>"

definition timer_start :: "Timer \<Rightarrow> Timer" where
  "timer_start tm = tm\<lparr>running := True\<rparr>"

definition timer_stop :: "double \<Rightarrow> Timer \<Rightarrow> Timer option" where
  "timer_stop d tm =
     (if running tm then Some (tm\<lparr>running := False, bracket := d\<rparr>) else None)"

definition timer_seconds :: "Timer \<Rightarrow> double" where
  "timer_seconds tm = bracket tm"

subsection \<open>The execution context\<close>

type_synonym size_t = "64 word"

record config =
  kernel :: string
  pattern :: "size_t list"
  sparse :: "double list"
  dense :: "double list"
  nruns :: "64 word"
  verbosity :: "64 word"
  timer :: Timer
  time_seconds :: double

text \<open>
  A member function either returns, with its result and the object after the call, or
  does not: \<open>Exit n\<close> is \<^verbatim>\<open>exit(n)\<close>, \<open>Bad_Alloc\<close> an exception of
  \<^verbatim>\<open>std::vector::resize\<close>, \<open>Undefined_Access\<close> an \<^verbatim>\<open>operator[]\<close> outside the
  vector, \<open>Timer_Misuse\<close> a \<^verbatim>\<open>stop()\<close> without \<^verbatim>\<open>start()\<close>. The object of an
  \<open>Aborts\<close> is the object at that moment.
\<close>

datatype error = Exit int | Bad_Alloc | Undefined_Access | Timer_Misuse

datatype 'a outcome = Returns 'a config | Aborts error config

subsection \<open>The kernels of the Serial variant\<close>

text \<open>
  \<^verbatim>\<open>for (size_t i = 0; i < pattern.size(); ++i) dense[i] = sparse[pattern[i]];\<close>
\<close>

function gather_loop :: "nat \<Rightarrow> config \<Rightarrow> unit outcome" where
  "gather_loop i s =
     (if i < length (pattern s)
      then (if unat (pattern s ! i) < length (sparse s) \<and> i < length (dense s)
            then gather_loop (Suc i)
                   (s\<lparr>dense := (dense s)[i := sparse s ! unat (pattern s ! i)]\<rparr>)
            else Aborts Undefined_Access s)
      else Returns () s)"
  by pat_completeness auto
termination
  by (relation "measure (\<lambda>(i, s). length (pattern s) - i)") auto

declare gather_loop.simps [simp del]

text \<open>
  \<^verbatim>\<open>for (size_t i = 0; i < pattern.size(); ++i) sparse[pattern[i]] = dense[i];\<close>
\<close>

function scatter_loop :: "nat \<Rightarrow> config \<Rightarrow> unit outcome" where
  "scatter_loop i s =
     (if i < length (pattern s)
      then (if unat (pattern s ! i) < length (sparse s) \<and> i < length (dense s)
            then scatter_loop (Suc i)
                   (s\<lparr>sparse := (sparse s)[unat (pattern s ! i) := dense s ! i]\<rparr>)
            else Aborts Undefined_Access s)
      else Returns () s)"
  by pat_completeness auto
termination
  by (relation "measure (\<lambda>(i, s). length (pattern s) - i)") auto

declare scatter_loop.simps [simp del]

text \<open>The closing \<^verbatim>\<open>if (timed) { timer.stop(); time_seconds = timer.seconds(); }\<close>.\<close>

definition stop_timing :: "bool \<Rightarrow> double \<Rightarrow> config \<Rightarrow> unit outcome" where
  "stop_timing timed d s =
     (if timed
      then (case timer_stop d (timer s) of
              None \<Rightarrow> Aborts Timer_Misuse s
            | Some tm \<Rightarrow> Returns () (s\<lparr>timer := tm, time_seconds := timer_seconds tm\<rparr>))
      else Returns () s)"

definition start_timing :: "bool \<Rightarrow> config \<Rightarrow> config" where
  "start_timing timed s = (if timed then s\<lparr>timer := timer_start (timer s)\<rparr> else s)"

definition gather :: "bool \<Rightarrow> double \<Rightarrow> config \<Rightarrow> unit outcome" where
  "gather timed d s =
     (case gather_loop 0 (start_timing timed s) of
        Aborts e s' \<Rightarrow> Aborts e s'
      | Returns _ s' \<Rightarrow> stop_timing timed d s')"

definition scatter :: "bool \<Rightarrow> double \<Rightarrow> config \<Rightarrow> unit outcome" where
  "scatter timed d s =
     (case scatter_loop 0 (start_timing timed s) of
        Aborts e s' \<Rightarrow> Aborts e s'
      | Returns _ s' \<Rightarrow> stop_timing timed d s')"

text \<open>\<^verbatim>\<open>ConfigurationBase::run\<close>.\<close>

definition run :: "bool \<Rightarrow> double \<Rightarrow> config \<Rightarrow> int outcome" where
  "run timed d s =
     (if kernel s = ''gather''
      then (case gather timed d s of
              Aborts e s' \<Rightarrow> Aborts e s'
            | Returns _ s' \<Rightarrow> Returns 0 s')
      else if kernel s = ''scatter''
      then (case scatter timed d s of
              Aborts e s' \<Rightarrow> Aborts e s'
            | Returns _ s' \<Rightarrow> Returns 0 s')
      else Returns (- 1) s)"

subsection \<open>Construction and setup\<close>

text \<open>
  \<^verbatim>\<open>std::tolower\<close> on an \<^verbatim>\<open>unsigned char\<close>, in the "C" locale: the letters
  \<^verbatim>\<open>A\<close> to \<^verbatim>\<open>Z\<close> move to \<^verbatim>\<open>a\<close> to \<^verbatim>\<open>z\<close>, every other character stays.
\<close>

definition tolower :: "char \<Rightarrow> char" where
  "tolower c =
     (if (65::nat) \<le> of_char c \<and> of_char c \<le> (90::nat)
      then char_of (of_char c + (32::nat)) else c)"

text \<open>
  The constructor of \<^verbatim>\<open>ConfigurationBase\<close>: the members are initialised, the
  vectors and the timer by default, and the kernel name is lowered in place.
\<close>

definition ConfigurationBase ::
  "string \<Rightarrow> size_t list \<Rightarrow> 64 word \<Rightarrow> 64 word \<Rightarrow> config" where
  "ConfigurationBase k p n v =
     \<lparr>kernel = map tolower k, pattern = p, sparse = [], dense = [], nruns = n,
      verbosity = v, timer = timer_init, time_seconds = dzero\<rparr>"

text \<open>
  \<^verbatim>\<open>std::vector<double>::resize(n)\<close>: shrinking keeps the first \<open>n\<close> elements,
  growing appends zeros and needs storage for \<open>n\<close> elements. Whether the allocator (and
  \<^verbatim>\<open>max_size()\<close>) grants that storage is the environment's answer \<open>alloc n\<close>;
  a refusal is an exception and leaves the vector as it was.
\<close>

definition resize :: "(nat \<Rightarrow> bool) \<Rightarrow> nat \<Rightarrow> double list \<Rightarrow> double list option" where
  "resize alloc n xs =
     (if n \<le> length xs then Some (take n xs)
      else if alloc n then Some (xs @ replicate (n - length xs) dzero)
      else None)"

text \<open>
  \<^verbatim>\<open>for (size_t i = 0; i < n; ++i) xs[i] = rand();\<close> where \<open>rnd k\<close> is the value
  of the \<open>k\<close>-th call of \<^verbatim>\<open>rand()\<close> since the start of \<^verbatim>\<open>setup\<close> and \<open>c\<close> calls
  were made before the loop. \<open>None\<close> is an access outside the vector.
\<close>

function fill_rand ::
  "(nat \<Rightarrow> nat) \<Rightarrow> nat \<Rightarrow> nat \<Rightarrow> nat \<Rightarrow> double list \<Rightarrow> double list option" where
  "fill_rand rnd c i n xs =
     (if i < n
      then (if i < length xs
            then fill_rand rnd c (Suc i) n (xs[i := double_of_nat (rnd (c + i))])
            else None)
      else Some xs)"
  by pat_completeness auto
termination
  by (relation "measure (\<lambda>(rnd, c, i, n, xs). n - i)") auto

declare fill_rand.simps [simp del]

text \<open>
  \<^verbatim>\<open>for (size_t i = 0; i < pattern.size(); ++i)
    if (pattern[i] > max_pattern_val) max_pattern_val = pattern[i];\<close>
\<close>

function max_loop :: "nat \<Rightarrow> size_t list \<Rightarrow> size_t \<Rightarrow> size_t" where
  "max_loop i ps m =
     (if i < length ps
      then max_loop (Suc i) ps (if m < ps ! i then ps ! i else m)
      else m)"
  by pat_completeness auto
termination
  by (relation "measure (\<lambda>(i, ps, m). length ps - i)") auto

declare max_loop.simps [simp del]

text \<open>
  \<^verbatim>\<open>ConfigurationBase::setup\<close>. The size of the sparse buffer and the bound of its
  loop are the 64-bit sum \<^verbatim>\<open>max_pattern_val + 1\<close>.
\<close>

definition base_setup :: "(nat \<Rightarrow> bool) \<Rightarrow> (nat \<Rightarrow> nat) \<Rightarrow> config \<Rightarrow> unit outcome" where
  "base_setup alloc rnd s =
     (if length (pattern s) = 0 then Aborts (Exit 1) s
      else
        case resize alloc (length (pattern s)) (dense s) of
          None \<Rightarrow> Aborts Bad_Alloc s
        | Some d0 \<Rightarrow>
            let s1 = s\<lparr>dense := d0\<rparr> in
            case fill_rand rnd 0 0 (length (pattern s1)) (dense s1) of
              None \<Rightarrow> Aborts Undefined_Access s1
            | Some d1 \<Rightarrow>
                let s2 = s1\<lparr>dense := d1\<rparr>;
                    max_pattern_val = max_loop 0 (pattern s2) 0 in
                case resize alloc (unat (max_pattern_val + 1)) (sparse s2) of
                  None \<Rightarrow> Aborts Bad_Alloc s2
                | Some sp0 \<Rightarrow>
                    let s3 = s2\<lparr>sparse := sp0\<rparr> in
                    case fill_rand rnd (length (pattern s3)) 0
                           (unat (max_pattern_val + 1)) (sparse s3) of
                      None \<Rightarrow> Aborts Undefined_Access s3
                    | Some sp1 \<Rightarrow> Returns () (s3\<lparr>sparse := sp1\<rparr>))"

text \<open>\<^verbatim>\<open>Configuration<Spatter::Serial>::setup\<close> prints a line and calls the base.\<close>

definition serial_setup :: "(nat \<Rightarrow> bool) \<Rightarrow> (nat \<Rightarrow> nat) \<Rightarrow> config \<Rightarrow> unit outcome" where
  "serial_setup alloc rnd s = base_setup alloc rnd s"

text \<open>The constructor of \<^verbatim>\<open>Configuration<Spatter::Serial>\<close>.\<close>

definition Configuration ::
  "(nat \<Rightarrow> bool) \<Rightarrow> (nat \<Rightarrow> nat) \<Rightarrow> string \<Rightarrow> size_t list \<Rightarrow> 64 word \<Rightarrow> 64 word
     \<Rightarrow> unit outcome" where
  "Configuration alloc rnd k p n v = serial_setup alloc rnd (ConfigurationBase k p n v)"

subsection \<open>The report\<close>

text \<open>
  The four figures that \<^verbatim>\<open>ConfigurationBase::report\<close> prints, in the order it prints
  them; their decimal formatting is not modelled. The products are products of
  \<^verbatim>\<open>size_t\<close>, and the bandwidth is
  \<^verbatim>\<open>(double)(nruns * pattern.size() * sizeof(size_t)) / time_seconds / 1000000.\<close>
\<close>

record figures =
  total_bytes :: "64 word"
  bytes_per_run :: "64 word"
  runs :: "64 word"
  seconds :: double
  bandwidth :: double

definition base_report :: "config \<Rightarrow> figures" where
  "base_report s =
     \<lparr>total_bytes = nruns s * of_nat (length (pattern s)) * 8,
      bytes_per_run = of_nat (length (pattern s)) * 8,
      runs = nruns s,
      seconds = time_seconds s,
      bandwidth =
        ddiv (ddiv (double_of_nat (unat (nruns s * of_nat (length (pattern s)) * 8)))
                (time_seconds s))
          (DFinite False 1000000 0)\<rparr>"

text \<open>
  \<^verbatim>\<open>Configuration<Spatter::Serial>::report\<close> prints its heading and then the base
  report; it assigns to no member.
\<close>

definition report :: "config \<Rightarrow> (string \<times> figures) outcome" where
  "report s = Returns (''Spatter Serial Report'', base_report s) s"

subsection \<open>Notions of the specification\<close>

text \<open>
  The buffer-sizing invariant of the data model: the dense buffer is as long as the
  pattern, and the sparse buffer has one slot more than the largest index of the
  pattern. The sum is a sum of natural numbers.
\<close>

definition sized :: "config \<Rightarrow> bool" where
  "sized s \<longleftrightarrow>
     length (dense s) = length (pattern s) \<and>
     length (sparse s) = Max (unat ` set (pattern s)) + 1"

text \<open>
  Position \<open>i\<close> is the largest position of the pattern that holds the sparse index \<open>j\<close>.
\<close>

definition last_position :: "size_t list \<Rightarrow> nat \<Rightarrow> nat \<Rightarrow> bool" where
  "last_position ps j i \<longleftrightarrow>
     i < length ps \<and> unat (ps ! i) = j \<and>
     (\<forall>l < length ps. i < l \<longrightarrow> unat (ps ! l) \<noteq> j)"

text \<open>
  A caller's sequence of timed kernel calls on one context: each element says whether
  the call is \<^verbatim>\<open>gather\<close> (otherwise \<^verbatim>\<open>scatter\<close>) and how long its timer bracket
  lasted.
\<close>

fun timed_calls :: "(bool \<times> double) list \<Rightarrow> config \<Rightarrow> unit outcome" where
  "timed_calls [] s = Returns () s"
| "timed_calls ((g, d) # cs) s =
     (case (if g then gather True d s else scatter True d s) of
        Aborts e s' \<Rightarrow> Aborts e s'
      | Returns _ s' \<Rightarrow> timed_calls cs s')"

text \<open>
  Two strings are equal up to the case of the letters \<^verbatim>\<open>A\<close> to \<^verbatim>\<open>Z\<close>.
\<close>

definition is_upper :: "char \<Rightarrow> bool" where
  "is_upper c \<longleftrightarrow> (65::nat) \<le> of_char c \<and> of_char c \<le> (90::nat)"

definition same_letter :: "char \<Rightarrow> char \<Rightarrow> bool" where
  "same_letter c d \<longleftrightarrow>
     c = d \<or>
     (is_upper c \<and> (of_char d :: nat) = of_char c + 32) \<or>
     (is_upper d \<and> (of_char c :: nat) = of_char d + 32)"

definition ci_equal :: "string \<Rightarrow> string \<Rightarrow> bool" where
  "ci_equal a b \<longleftrightarrow> list_all2 same_letter a b"

text \<open>The classes of a \<^verbatim>\<open>double\<close>: \<open>x == 0\<close>, an infinity, not a number.\<close>

fun is_zero :: "double \<Rightarrow> bool" where
  "is_zero (DFinite s m e) = (m = 0)"
| "is_zero x = False"

fun is_inf :: "double \<Rightarrow> bool" where
  "is_inf (DInf s) = True"
| "is_inf x = False"

fun is_nan :: "double \<Rightarrow> bool" where
  "is_nan DNaN = True"
| "is_nan x = False"

fun sign_bit :: "double \<Rightarrow> bool" where
  "sign_bit (DFinite s m e) = s"
| "sign_bit (DInf s) = s"
| "sign_bit DNaN = False"

text \<open>
  An environment for examples: an allocator that grants every request, one that grants
  none, and a \<^verbatim>\<open>rand()\<close> whose \<open>k\<close>-th value is \<open>k + 1\<close>.
\<close>

definition grant_all :: "nat \<Rightarrow> bool" where
  "grant_all n = True"

definition grant_none :: "nat \<Rightarrow> bool" where
  "grant_none n = False"

definition rand_count :: "nat \<Rightarrow> nat" where
  "rand_count k = k + 1"

text \<open>A sized context that has been timed before: its elapsed seconds are 7.\<close>

definition timed_example :: config where
  "timed_example =
     \<lparr>kernel = ''gather'', pattern = [1, 0], sparse = [DNaN, DInf True],
      dense = [dzero, dzero], nruns = 10, verbosity = 3,
      timer = \<lparr>running = False, bracket = DFinite False 7 0\<rparr>,
      time_seconds = DFinite False 7 0\<rparr>"

section \<open>Verification\<close>

subsection \<open>The loops of the kernels\<close>

lemma gather_loop_done:
  "\<not> i < length (pattern s) \<Longrightarrow> gather_loop i s = Returns () s"
  by (simp add: gather_loop.simps [of i s])

lemma gather_loop_step:
  "i < length (pattern s) \<Longrightarrow> unat (pattern s ! i) < length (sparse s) \<Longrightarrow> i < length (dense s) \<Longrightarrow>
   gather_loop i s =
     gather_loop (Suc i) (s\<lparr>dense := (dense s)[i := sparse s ! unat (pattern s ! i)]\<rparr>)"
  by (simp add: gather_loop.simps [of i s])

lemma gather_loop_frame:
  "gather_loop i s = Returns u s' \<Longrightarrow> \<exists>ds. s' = s\<lparr>dense := ds\<rparr> \<and> length ds = length (dense s)"
proof (induction i s rule: gather_loop.induct)
  case (1 i s)
  show ?case
  proof (cases "i < length (pattern s)")
    case False
    with "1.prems" have "s' = s" by (simp add: gather_loop.simps [of i s])
    then show ?thesis by (intro exI [of _ "dense s"]) simp
  next
    case True
    show ?thesis
    proof (cases "unat (pattern s ! i) < length (sparse s) \<and> i < length (dense s)")
      case False
      with True "1.prems" show ?thesis by (simp add: gather_loop.simps [of i s])
    next
      case inb: True
      let ?s1 = "s\<lparr>dense := (dense s)[i := sparse s ! unat (pattern s ! i)]\<rparr>"
      from True inb "1.prems" have "gather_loop (Suc i) ?s1 = Returns u s'"
        by (simp add: gather_loop.simps [of i s])
      from "1.IH" [OF True inb this] obtain ds where
        "s' = ?s1\<lparr>dense := ds\<rparr>" "length ds = length (dense ?s1)" by blast
      then show ?thesis by (intro exI [of _ ds]) simp
    qed
  qed
qed

lemma gather_loop_returns:
  assumes "length (dense s) = length (pattern s)"
    and "\<forall>k<length (pattern s). unat (pattern s ! k) < length (sparse s)"
    and "i \<le> length (pattern s)"
  shows "gather_loop i s =
    Returns () (s\<lparr>dense := take i (dense s) @ map (\<lambda>p. sparse s ! unat p) (drop i (pattern s))\<rparr>)"
  using assms
proof (induction i s rule: gather_loop.induct)
  case (1 i s)
  show ?case
  proof (cases "i < length (pattern s)")
    case False
    with "1.prems" have "i = length (pattern s)" by simp
    with "1.prems" False show ?thesis by (simp add: gather_loop_done)
  next
    case True
    let ?v = "sparse s ! unat (pattern s ! i)"
    let ?s1 = "s\<lparr>dense := (dense s)[i := ?v]\<rparr>"
    from True "1.prems" have inb: "unat (pattern s ! i) < length (sparse s) \<and> i < length (dense s)"
      by simp
    have "gather_loop (Suc i) ?s1 =
      Returns () (?s1\<lparr>dense := take (Suc i) (dense ?s1) @ map (\<lambda>p. sparse ?s1 ! unat p) (drop (Suc i) (pattern ?s1))\<rparr>)"
      using "1.prems" True by (intro "1.IH" [OF True inb]) simp_all
    moreover have "take (Suc i) ((dense s)[i := ?v]) = take i (dense s) @ [?v]"
      using inb by (simp add: take_Suc_conv_app_nth)
    moreover have "drop i (pattern s) = pattern s ! i # drop (Suc i) (pattern s)"
      using True by (simp add: Cons_nth_drop_Suc)
    ultimately show ?thesis
      using True inb by (simp add: gather_loop_step)
  qed
qed


lemma scatter_loop_done:
  "\<not> i < length (pattern s) \<Longrightarrow> scatter_loop i s = Returns () s"
  by (simp add: scatter_loop.simps [of i s])

lemma scatter_loop_step:
  "i < length (pattern s) \<Longrightarrow> unat (pattern s ! i) < length (sparse s) \<Longrightarrow> i < length (dense s) \<Longrightarrow>
   scatter_loop i s =
     scatter_loop (Suc i) (s\<lparr>sparse := (sparse s)[unat (pattern s ! i) := dense s ! i]\<rparr>)"
  by (simp add: scatter_loop.simps [of i s])

lemma scatter_loop_abort:
  "i < length (pattern s) \<Longrightarrow> \<not> (unat (pattern s ! i) < length (sparse s) \<and> i < length (dense s)) \<Longrightarrow>
   scatter_loop i s = Aborts Undefined_Access s"
  by (subst scatter_loop.simps) auto

lemma scatter_loop_frame:
  "scatter_loop i s = Returns u s' \<Longrightarrow> \<exists>sp. s' = s\<lparr>sparse := sp\<rparr> \<and> length sp = length (sparse s)"
proof (induction i s rule: scatter_loop.induct)
  case (1 i s)
  show ?case
  proof (cases "i < length (pattern s)")
    case False
    with "1.prems" have "s' = s" by (simp add: scatter_loop_done)
    then show ?thesis by (intro exI [of _ "sparse s"]) simp
  next
    case True
    show ?thesis
    proof (cases "unat (pattern s ! i) < length (sparse s) \<and> i < length (dense s)")
      case False
      with True "1.prems" show ?thesis by (simp add: scatter_loop_abort)
    next
      case inb: True
      let ?s1 = "s\<lparr>sparse := (sparse s)[unat (pattern s ! i) := dense s ! i]\<rparr>"
      from True inb "1.prems" have "scatter_loop (Suc i) ?s1 = Returns u s'"
        by (simp add: scatter_loop_step)
      from "1.IH" [OF True inb this] obtain sp where
        "s' = ?s1\<lparr>sparse := sp\<rparr>" "length sp = length (sparse ?s1)" by blast
      then show ?thesis by (intro exI [of _ sp]) simp
    qed
  qed
qed

lemma scatter_loop_returns:
  assumes "length (pattern s) \<le> length (dense s)"
    and "\<forall>k<length (pattern s). unat (pattern s ! k) < length (sparse s)"
  shows "\<exists>sp. scatter_loop i s = Returns () (s\<lparr>sparse := sp\<rparr>) \<and>
    length sp = length (sparse s) \<and>
    (\<forall>k. i \<le> k \<and> k < length (pattern s) \<and>
        (\<forall>l. k < l \<and> l < length (pattern s) \<longrightarrow> pattern s ! l \<noteq> pattern s ! k)
        \<longrightarrow> sp ! unat (pattern s ! k) = dense s ! k) \<and>
    (\<forall>j. (\<forall>k. i \<le> k \<and> k < length (pattern s) \<longrightarrow> unat (pattern s ! k) \<noteq> j)
        \<longrightarrow> sp ! j = sparse s ! j)"
  using assms
proof (induction i s rule: scatter_loop.induct)
  case (1 i s)
  show ?case
  proof (cases "i < length (pattern s)")
    case False
    then have "scatter_loop i s = Returns () (s\<lparr>sparse := sparse s\<rparr>)"
      by (simp add: scatter_loop_done)
    with False show ?thesis by (intro exI [of _ "sparse s"]) auto
  next
    case True
    let ?j = "unat (pattern s ! i)"
    let ?s1 = "s\<lparr>sparse := (sparse s)[?j := dense s ! i]\<rparr>"
    from True "1.prems" have inb: "?j < length (sparse s) \<and> i < length (dense s)"
      by auto
    have "\<exists>sp. scatter_loop (Suc i) ?s1 = Returns () (?s1\<lparr>sparse := sp\<rparr>) \<and>
      length sp = length (sparse ?s1) \<and>
      (\<forall>k. Suc i \<le> k \<and> k < length (pattern ?s1) \<and>
          (\<forall>l. k < l \<and> l < length (pattern ?s1) \<longrightarrow> pattern ?s1 ! l \<noteq> pattern ?s1 ! k)
          \<longrightarrow> sp ! unat (pattern ?s1 ! k) = dense ?s1 ! k) \<and>
      (\<forall>j. (\<forall>k. Suc i \<le> k \<and> k < length (pattern ?s1) \<longrightarrow> unat (pattern ?s1 ! k) \<noteq> j)
          \<longrightarrow> sp ! j = sparse ?s1 ! j)"
      using "1.prems" by (intro "1.IH" [OF True inb]) simp_all
    then obtain sp where
      run: "scatter_loop (Suc i) ?s1 = Returns () (s\<lparr>sparse := sp\<rparr>)" and
      len: "length sp = length (sparse s)" and
      hit: "\<And>k. Suc i \<le> k \<Longrightarrow> k < length (pattern s) \<Longrightarrow>
          (\<forall>l. k < l \<and> l < length (pattern s) \<longrightarrow> pattern s ! l \<noteq> pattern s ! k)
          \<Longrightarrow> sp ! unat (pattern s ! k) = dense s ! k" and
      miss: "\<And>j. (\<forall>k. Suc i \<le> k \<and> k < length (pattern s) \<longrightarrow> unat (pattern s ! k) \<noteq> j)
          \<Longrightarrow> sp ! j = (sparse s)[?j := dense s ! i] ! j"
      by auto
    have "scatter_loop i s = Returns () (s\<lparr>sparse := sp\<rparr>)"
      using True inb run by (simp add: scatter_loop_step)
    moreover have "sp ! unat (pattern s ! k) = dense s ! k"
      if "i \<le> k" "k < length (pattern s)"
        "\<forall>l. k < l \<and> l < length (pattern s) \<longrightarrow> pattern s ! l \<noteq> pattern s ! k" for k
    proof (cases "k = i")
      case False
      with that show ?thesis by (intro hit) auto
    next
      case True
      with that have "\<forall>l. Suc i \<le> l \<and> l < length (pattern s) \<longrightarrow> unat (pattern s ! l) \<noteq> ?j"
        by (auto simp: word_unat_eq_iff)
      from miss [OF this] inb True show ?thesis by simp
    qed
    moreover have "sp ! j = sparse s ! j"
      if "\<forall>k. i \<le> k \<and> k < length (pattern s) \<longrightarrow> unat (pattern s ! k) \<noteq> j" for j
    proof -
      from that True have "?j \<noteq> j" by auto
      moreover from that have "sp ! j = (sparse s)[?j := dense s ! i] ! j"
        by (intro miss) auto
      ultimately show ?thesis by simp
    qed
    ultimately show ?thesis using len by (intro exI [of _ sp]) blast
  qed
qed

subsection \<open>The kernels on a sized context\<close>

lemma sized_in_bounds:
  assumes "sized s" "pattern s \<noteq> []"
  shows "\<forall>k<length (pattern s). unat (pattern s ! k) < length (sparse s)"
proof (intro allI impI)
  fix k assume "k < length (pattern s)"
  then have "unat (pattern s ! k) \<in> unat ` set (pattern s)" by simp
  then have "unat (pattern s ! k) \<le> Max (unat ` set (pattern s))" by simp
  with assms show "unat (pattern s ! k) < length (sparse s)" by (simp add: sized_def)
qed

lemma stop_after_start:
  "timer s' = timer (start_timing timed s) \<Longrightarrow>
   stop_timing timed d s' =
     Returns () (if timed then s'\<lparr>timer := (timer s)\<lparr>running := False, bracket := d\<rparr>, time_seconds := d\<rparr> else s')"
  by (simp add: stop_timing_def start_timing_def timer_stop_def timer_start_def timer_seconds_def)

lemma gather_returns:
  assumes "sized s" "pattern s \<noteq> []"
  shows "gather timed d s =
    Returns () (if timed
      then s\<lparr>dense := map (\<lambda>p. sparse s ! unat p) (pattern s),
             timer := (timer s)\<lparr>running := False, bracket := d\<rparr>, time_seconds := d\<rparr>
      else s\<lparr>dense := map (\<lambda>p. sparse s ! unat p) (pattern s)\<rparr>)"
proof -
  let ?s0 = "start_timing timed s"
  have "sized ?s0" "pattern ?s0 \<noteq> []"
    using assms by (simp_all add: start_timing_def sized_def)
  then have "gather_loop 0 ?s0 =
    Returns () (?s0\<lparr>dense := take 0 (dense ?s0) @ map (\<lambda>p. sparse ?s0 ! unat p) (drop 0 (pattern ?s0))\<rparr>)"
    by (intro gather_loop_returns sized_in_bounds) (simp_all add: sized_def)
  then show ?thesis
    by (simp add: gather_def stop_after_start) (simp add: start_timing_def)
qed


lemma scatter_loop_same:
  assumes "\<forall>k<length (pattern s). k < length (dense s) \<and> unat (pattern s ! k) < length (sparse s)
      \<and> dense s ! k = sparse s ! unat (pattern s ! k)"
  shows "scatter_loop i s = Returns () s"
  using assms
proof (induction i s rule: scatter_loop.induct)
  case (1 i s)
  show ?case
  proof (cases "i < length (pattern s)")
    case False
    then show ?thesis by (simp add: scatter_loop_done)
  next
    case True
    with "1.prems" have inb: "unat (pattern s ! i) < length (sparse s) \<and> i < length (dense s)"
      and same: "dense s ! i = sparse s ! unat (pattern s ! i)" by auto
    have upd: "s\<lparr>sparse := (sparse s)[unat (pattern s ! i) := dense s ! i]\<rparr> = s"
      by (simp add: same)
    have "scatter_loop (Suc i) s = Returns () s"
      by (rule "1.IH" [OF True inb, unfolded upd]) (rule "1.prems")
    with True inb show ?thesis by (simp add: scatter_loop_step upd)
  qed
qed

lemma last_position_exists:
  assumes "j \<in> unat ` set ps"
  shows "\<exists>i. last_position ps j i"
proof -
  let ?I = "{i. i < length ps \<and> unat (ps ! i) = j}"
  from assms have "?I \<noteq> {}" by (auto simp: in_set_conv_nth)
  moreover have fin: "finite ?I" by simp
  ultimately have "Max ?I \<in> ?I" by (rule Max_in [rotated])
  then have 1: "Max ?I < length ps" and 2: "unat (ps ! Max ?I) = j" by simp_all
  have 3: "unat (ps ! l) \<noteq> j" if "l < length ps" "Max ?I < l" for l
  proof
    assume "unat (ps ! l) = j"
    with that have "l \<in> ?I" by simp
    with fin have "l \<le> Max ?I" by (rule Max_ge)
    with that show False by simp
  qed
  have "last_position ps j (Max ?I)"
    unfolding last_position_def
  proof (intro conjI allI impI)
    show "Max ?I < length ps" by (rule 1)
    show "unat (ps ! Max ?I) = j" by (rule 2)
    show "unat (ps ! l) \<noteq> j" if "l < length ps" "Max ?I < l" for l
      using that by (rule 3)
  qed
  then show ?thesis ..
qed

lemma scatter_loop_start:
  assumes "sized s" "pattern s \<noteq> []"
  shows "\<exists>sp. scatter_loop 0 (start_timing timed s) = Returns () (start_timing timed s\<lparr>sparse := sp\<rparr>) \<and>
    length sp = length (sparse s) \<and>
    (\<forall>k. 0 \<le> k \<and> k < length (pattern s) \<and>
        (\<forall>l. k < l \<and> l < length (pattern s) \<longrightarrow> pattern s ! l \<noteq> pattern s ! k)
        \<longrightarrow> sp ! unat (pattern s ! k) = dense s ! k) \<and>
    (\<forall>j. (\<forall>k. 0 \<le> k \<and> k < length (pattern s) \<longrightarrow> unat (pattern s ! k) \<noteq> j)
        \<longrightarrow> sp ! j = sparse s ! j)"
proof -
  let ?s0 = "start_timing timed s"
  have eqs: "pattern ?s0 = pattern s" "dense ?s0 = dense s" "sparse ?s0 = sparse s"
    by (simp_all add: start_timing_def)
  have b1: "length (pattern ?s0) \<le> length (dense ?s0)"
    using assms by (simp add: eqs sized_def)
  have b2: "\<forall>k<length (pattern ?s0). unat (pattern ?s0 ! k) < length (sparse ?s0)"
    using sized_in_bounds [OF assms] by (simp add: eqs)
  show ?thesis
    by (rule scatter_loop_returns [OF b1 b2, of 0, unfolded eqs])
qed


lemma scatter_returns:
  assumes "sized s" "pattern s \<noteq> []"
  shows "\<exists>sp. scatter timed d s =
      Returns () (if timed
        then s\<lparr>sparse := sp, timer := (timer s)\<lparr>running := False, bracket := d\<rparr>, time_seconds := d\<rparr>
        else s\<lparr>sparse := sp\<rparr>) \<and>
    length sp = length (sparse s) \<and>
    (\<forall>j i. last_position (pattern s) j i \<longrightarrow> sp ! j = dense s ! i) \<and>
    (\<forall>j. j \<notin> unat ` set (pattern s) \<longrightarrow> sp ! j = sparse s ! j)"
proof -
  let ?s0 = "start_timing timed s"
  from scatter_loop_start [OF assms, of timed] obtain sp where
    run: "scatter_loop 0 ?s0 = Returns () (?s0\<lparr>sparse := sp\<rparr>)" and
    len: "length sp = length (sparse s)" and
    hit: "\<forall>k. 0 \<le> k \<and> k < length (pattern s) \<and>
        (\<forall>l. k < l \<and> l < length (pattern s) \<longrightarrow> pattern s ! l \<noteq> pattern s ! k)
        \<longrightarrow> sp ! unat (pattern s ! k) = dense s ! k" and
    miss: "\<forall>j. (\<forall>k. 0 \<le> k \<and> k < length (pattern s) \<longrightarrow> unat (pattern s ! k) \<noteq> j)
        \<longrightarrow> sp ! j = sparse s ! j"
    by (elim exE conjE)
  have tm: "timer (?s0\<lparr>sparse := sp\<rparr>) = timer ?s0" by simp
  have A: "scatter timed d s =
      Returns () (if timed
        then s\<lparr>sparse := sp, timer := (timer s)\<lparr>running := False, bracket := d\<rparr>, time_seconds := d\<rparr>
        else s\<lparr>sparse := sp\<rparr>)"
    unfolding scatter_def run outcome.case stop_after_start [OF tm]
    by (simp add: start_timing_def)
  have B: "sp ! j = dense s ! i" if "last_position (pattern s) j i" for j i
  proof -
    from that have i: "i < length (pattern s)" and j: "unat (pattern s ! i) = j"
      and nl: "\<forall>l<length (pattern s). i < l \<longrightarrow> unat (pattern s ! l) \<noteq> j"
      by (simp_all add: last_position_def)
    have "pattern s ! l \<noteq> pattern s ! i" if "i < l" "l < length (pattern s)" for l
      using nl that j by auto
    with hit i have "sp ! unat (pattern s ! i) = dense s ! i" by simp
    with j show ?thesis by simp
  qed
  have C: "sp ! j = sparse s ! j" if "j \<notin> unat ` set (pattern s)" for j
  proof -
    have "unat (pattern s ! k) \<noteq> j" if "k < length (pattern s)" for k
      using \<open>j \<notin> unat ` set (pattern s)\<close> nth_mem [OF that] by blast
    then have "\<forall>k. 0 \<le> k \<and> k < length (pattern s) \<longrightarrow> unat (pattern s ! k) \<noteq> j"
      by simp
    with miss show ?thesis by simp
  qed
  show ?thesis
  proof (intro exI [of _ sp] conjI allI impI)
    show "scatter timed d s =
      Returns () (if timed
        then s\<lparr>sparse := sp, timer := (timer s)\<lparr>running := False, bracket := d\<rparr>, time_seconds := d\<rparr>
        else s\<lparr>sparse := sp\<rparr>)" by (rule A)
    show "length sp = length (sparse s)" by (rule len)
    show "sp ! j = dense s ! i" if "last_position (pattern s) j i" for j i
      using that by (rule B)
    show "sp ! j = sparse s ! j" if "j \<notin> unat ` set (pattern s)" for j
      using that by (rule C)
  qed
qed

subsection \<open>Gather\<close>

lemma gather_sized_or_listed:
  "(sized s \<and> pattern s \<noteq> [] \<and> kernel s = ''gather'' \<longrightarrow>
      (\<exists>s'. gather timed d s = Returns () s' \<and> run timed d s = Returns 0 s' \<and>
         length (dense s') = length (pattern s) \<and>
         (\<forall>i<length (pattern s). dense s' ! i = sparse s ! unat (pattern s ! i)))) \<and>
   (pattern s = [0, 1, 2, 3] \<and> length (dense s) = 4 \<and> sparse s = s0 # s1 # s2 # s3 # rest \<longrightarrow>
      (\<exists>s'. gather timed d s = Returns () s' \<and> dense s' = [s0, s1, s2, s3]))"
proof (intro conjI impI)
  assume a: "sized s \<and> pattern s \<noteq> [] \<and> kernel s = ''gather''"
  let ?ds = "map (\<lambda>p. sparse s ! unat p) (pattern s)"
  let ?s' = "if timed
      then s\<lparr>dense := ?ds, timer := (timer s)\<lparr>running := False, bracket := d\<rparr>, time_seconds := d\<rparr>
      else s\<lparr>dense := ?ds\<rparr>"
  from a have g: "gather timed d s = Returns () ?s'" by (simp add: gather_returns)
  have "dense ?s' = ?ds" by simp
  with a g show "\<exists>s'. gather timed d s = Returns () s' \<and> run timed d s = Returns 0 s' \<and>
         length (dense s') = length (pattern s) \<and>
         (\<forall>i<length (pattern s). dense s' ! i = sparse s ! unat (pattern s ! i))"
    by (intro exI [of _ ?s']) (simp add: run_def)
next
  assume a: "pattern s = [0, 1, 2, 3] \<and> length (dense s) = 4 \<and> sparse s = s0 # s1 # s2 # s3 # rest"
  let ?s0 = "start_timing timed s"
  have eqs: "pattern ?s0 = pattern s" "dense ?s0 = dense s" "sparse ?s0 = sparse s"
    by (simp_all add: start_timing_def)
  have b1: "length (dense ?s0) = length (pattern ?s0)" using a by (simp add: eqs)
  have "\<forall>p\<in>set (pattern s). unat p < length (sparse s)" using a by simp
  then have b2: "\<forall>k<length (pattern ?s0). unat (pattern ?s0 ! k) < length (sparse ?s0)"
    by (simp add: eqs all_set_conv_all_nth)
  have b3: "0 \<le> length (pattern ?s0)" by simp
  have run: "gather_loop 0 ?s0 = Returns () (?s0\<lparr>dense := [s0, s1, s2, s3]\<rparr>)"
    using gather_loop_returns [OF b1 b2 b3] a by (simp add: eqs)
  have tm: "timer (?s0\<lparr>dense := [s0, s1, s2, s3]\<rparr>) = timer ?s0" by simp
  show "\<exists>s'. gather timed d s = Returns () s' \<and> dense s' = [s0, s1, s2, s3]"
    unfolding gather_def run outcome.case stop_after_start [OF tm] by simp
qed

subsection \<open>Scatter\<close>

lemma gather_keeps_sized:
  assumes "sized s" "pattern s \<noteq> []"
  shows "\<exists>s'. gather timed d s = Returns () s' \<and> sized s' \<and> pattern s' = pattern s \<and>
    sparse s' = sparse s \<and>
    dense s' = map (\<lambda>p. sparse s ! unat p) (pattern s) \<and>
    time_seconds s' = (if timed then d else time_seconds s)"
  using assms by (simp add: gather_returns sized_def)

lemma scatter_keeps_sized:
  assumes "sized s" "pattern s \<noteq> []"
  shows "\<exists>s'. scatter timed d s = Returns () s' \<and> sized s' \<and> pattern s' = pattern s \<and>
    dense s' = dense s \<and> time_seconds s' = (if timed then d else time_seconds s)"
proof -
  from scatter_returns [OF assms, of timed d] obtain sp where
    run: "scatter timed d s =
      Returns () (if timed
        then s\<lparr>sparse := sp, timer := (timer s)\<lparr>running := False, bracket := d\<rparr>, time_seconds := d\<rparr>
        else s\<lparr>sparse := sp\<rparr>)" and
    len: "length sp = length (sparse s)"
    by (elim exE conjE)
  from assms(1) len show ?thesis
    unfolding run by (simp add: sized_def)
qed

lemma scatter_sized_last_wins:
  assumes "sized s" and "pattern s \<noteq> []"
  shows "\<exists>s'. scatter timed d s = Returns () s' \<and>
    length (sparse s') = length (sparse s) \<and>
    (\<forall>j\<in>unat ` set (pattern s).
        \<exists>i. last_position (pattern s) j i \<and> sparse s' ! j = dense s ! i) \<and>
    (\<forall>j<length (sparse s). j \<notin> unat ` set (pattern s) \<longrightarrow> sparse s' ! j = sparse s ! j)"
proof -
  from scatter_returns [OF assms, of timed d] obtain sp where
    run: "scatter timed d s =
      Returns () (if timed
        then s\<lparr>sparse := sp, timer := (timer s)\<lparr>running := False, bracket := d\<rparr>, time_seconds := d\<rparr>
        else s\<lparr>sparse := sp\<rparr>)" and
    len: "length sp = length (sparse s)" and
    hit: "\<forall>j i. last_position (pattern s) j i \<longrightarrow> sp ! j = dense s ! i" and
    miss: "\<forall>j. j \<notin> unat ` set (pattern s) \<longrightarrow> sp ! j = sparse s ! j"
    by (elim exE conjE)
  let ?s' = "if timed
        then s\<lparr>sparse := sp, timer := (timer s)\<lparr>running := False, bracket := d\<rparr>, time_seconds := d\<rparr>
        else s\<lparr>sparse := sp\<rparr>"
  have sp: "sparse ?s' = sp" by simp
  have "\<exists>i. last_position (pattern s) j i \<and> sp ! j = dense s ! i"
    if "j \<in> unat ` set (pattern s)" for j
  proof -
    from last_position_exists [OF that] obtain i where "last_position (pattern s) j i" ..
    with hit show ?thesis by blast
  qed
  with len miss show ?thesis
    unfolding run by (intro exI [of _ ?s']) (simp only: sp, simp)
qed

subsection \<open>Gather followed by scatter\<close>

lemma gather_scatter_sized:
  assumes "sized s" and "pattern s \<noteq> []" and "distinct (pattern s)"
  shows "\<exists>s1 s2. gather t1 d1 s = Returns () s1 \<and> scatter t2 d2 s1 = Returns () s2 \<and>
    length (sparse s2) = length (sparse s) \<and>
    (\<forall>j<length (sparse s).
       (j \<in> unat ` set (pattern s) \<longrightarrow> sparse s2 ! j = sparse s ! j) \<and>
       (j \<notin> unat ` set (pattern s) \<longrightarrow> sparse s2 ! j = sparse s ! j))"
proof -
  from gather_keeps_sized [OF assms(1,2), of t1 d1] obtain s1 where
    g: "gather t1 d1 s = Returns () s1" and sz: "sized s1" and
    p: "pattern s1 = pattern s" and sp: "sparse s1 = sparse s" and
    ds: "dense s1 = map (\<lambda>p. sparse s ! unat p) (pattern s)"
    by (elim exE conjE)
  from assms(2) p have ne: "pattern s1 \<noteq> []" by simp
  let ?s0 = "start_timing t2 s1"
  have eqs: "pattern ?s0 = pattern s" "dense ?s0 = dense s1" "sparse ?s0 = sparse s"
    by (simp_all add: start_timing_def p sp)
  have "\<forall>k<length (pattern ?s0). k < length (dense ?s0) \<and>
      unat (pattern ?s0 ! k) < length (sparse ?s0) \<and>
      dense ?s0 ! k = sparse ?s0 ! unat (pattern ?s0 ! k)"
    using sized_in_bounds [OF sz ne] by (simp add: eqs ds p sp)
  then have loop: "scatter_loop 0 ?s0 = Returns () ?s0" by (rule scatter_loop_same)
  have "\<exists>s2. scatter t2 d2 s1 = Returns () s2 \<and> sparse s2 = sparse s1"
    unfolding scatter_def loop outcome.case stop_after_start [OF refl]
    by (simp add: start_timing_def)
  then obtain s2 where "scatter t2 d2 s1 = Returns () s2" and "sparse s2 = sparse s"
    using sp by auto
  with g show ?thesis by (intro exI [of _ s1] exI [of _ s2]) simp
qed

subsection \<open>Frame of the kernels and the elapsed seconds\<close>

lemma stop_timing_frame:
  assumes "stop_timing timed d s = Returns u s'"
  shows "s' = s\<lparr>timer := timer s', time_seconds := time_seconds s'\<rparr> \<and>
    (\<not> timed \<longrightarrow> s' = s)"
  using assms by (auto simp: stop_timing_def split: if_splits option.splits)

lemma gather_frame:
  assumes "gather timed d s = Returns u s'"
  shows "s' = s\<lparr>dense := dense s', timer := timer s', time_seconds := time_seconds s'\<rparr> \<and>
    (\<not> timed \<longrightarrow> s' = s\<lparr>dense := dense s'\<rparr>)"
proof -
  from assms obtain s1 where
    loop: "gather_loop 0 (start_timing timed s) = Returns () s1" and
    stop: "stop_timing timed d s1 = Returns u s'"
    by (auto simp: gather_def split: outcome.splits)
  from gather_loop_frame [OF loop] obtain ds where
    s1: "s1 = start_timing timed s\<lparr>dense := ds\<rparr>" by blast
  from stop_timing_frame [OF stop] have
    a: "s' = s1\<lparr>timer := timer s', time_seconds := time_seconds s'\<rparr>" and
    b: "\<not> timed \<longrightarrow> s' = s1" by simp_all
  have ds: "dense s' = ds" by (subst a) (simp add: s1)
  have "s' = s\<lparr>dense := dense s', timer := timer s', time_seconds := time_seconds s'\<rparr>"
    unfolding ds by (subst a) (simp add: s1 start_timing_def)
  moreover have "s' = s\<lparr>dense := dense s'\<rparr>" if "\<not> timed"
    unfolding ds using b that by (simp add: s1 start_timing_def)
  ultimately show ?thesis by blast
qed

lemma scatter_frame:
  assumes "scatter timed d s = Returns u s'"
  shows "s' = s\<lparr>sparse := sparse s', timer := timer s', time_seconds := time_seconds s'\<rparr> \<and>
    (\<not> timed \<longrightarrow> s' = s\<lparr>sparse := sparse s'\<rparr>)"
proof -
  from assms obtain s1 where
    loop: "scatter_loop 0 (start_timing timed s) = Returns () s1" and
    stop: "stop_timing timed d s1 = Returns u s'"
    by (auto simp: scatter_def split: outcome.splits)
  from scatter_loop_frame [OF loop] obtain sp where
    s1: "s1 = start_timing timed s\<lparr>sparse := sp\<rparr>" by blast
  from stop_timing_frame [OF stop] have
    a: "s' = s1\<lparr>timer := timer s', time_seconds := time_seconds s'\<rparr>" and
    b: "\<not> timed \<longrightarrow> s' = s1" by simp_all
  have sp: "sparse s' = sp" by (subst a) (simp add: s1)
  have "s' = s\<lparr>sparse := sparse s', timer := timer s', time_seconds := time_seconds s'\<rparr>"
    unfolding sp by (subst a) (simp add: s1 start_timing_def)
  moreover have "s' = s\<lparr>sparse := sparse s'\<rparr>" if "\<not> timed"
    unfolding sp using b that by (simp add: s1 start_timing_def)
  ultimately show ?thesis by blast
qed

text \<open>
  C10. A call of the Serial \<^verbatim>\<open>gather\<close> that returns has changed no member but the
  dense buffer, the timer and the elapsed seconds: the sparse buffer and the pattern are
  as before. A call of \<^verbatim>\<open>scatter\<close> that returns has changed no member but the sparse
  buffer, the timer and the elapsed seconds: the dense buffer and the pattern are as
  before. With \<open>timed = false\<close> the elapsed seconds (and the timer) are as before, too.
\<close>

theorem kernels_frame:
  "(gather timed d s = Returns u s' \<longrightarrow>
      sparse s' = sparse s \<and> pattern s' = pattern s \<and>
      s' = s\<lparr>dense := dense s', timer := timer s', time_seconds := time_seconds s'\<rparr> \<and>
      (\<not> timed \<longrightarrow> time_seconds s' = time_seconds s \<and> timer s' = timer s)) \<and>
   (scatter timed d s = Returns u s' \<longrightarrow>
      dense s' = dense s \<and> pattern s' = pattern s \<and>
      s' = s\<lparr>sparse := sparse s', timer := timer s', time_seconds := time_seconds s'\<rparr> \<and>
      (\<not> timed \<longrightarrow> time_seconds s' = time_seconds s \<and> timer s' = timer s))"
proof (intro conjI impI)
  assume g: "gather timed d s = Returns u s'"
  note f = gather_frame [OF g]
  from f have e: "s' = s\<lparr>dense := dense s', timer := timer s', time_seconds := time_seconds s'\<rparr>"
    by simp
  show "s' = s\<lparr>dense := dense s', timer := timer s', time_seconds := time_seconds s'\<rparr>"
    by (rule e)
  show "sparse s' = sparse s" by (subst e) simp
  show "pattern s' = pattern s" by (subst e) simp
  assume nt: "\<not> timed"
  with f have e': "s' = s\<lparr>dense := dense s'\<rparr>" by simp
  show "time_seconds s' = time_seconds s" by (subst e') simp
  show "timer s' = timer s" by (subst e') simp
next
  assume g: "scatter timed d s = Returns u s'"
  note f = scatter_frame [OF g]
  from f have e: "s' = s\<lparr>sparse := sparse s', timer := timer s', time_seconds := time_seconds s'\<rparr>"
    by simp
  show "s' = s\<lparr>sparse := sparse s', timer := timer s', time_seconds := time_seconds s'\<rparr>"
    by (rule e)
  show "dense s' = dense s" by (subst e) simp
  show "pattern s' = pattern s" by (subst e) simp
  assume nt: "\<not> timed"
  with f have e': "s' = s\<lparr>sparse := sparse s'\<rparr>" by simp
  show "time_seconds s' = time_seconds s" by (subst e') simp
  show "timer s' = timer s" by (subst e') simp
qed


theorem kernels_frame_witness:
  "gather False (DInf False)
     \<lparr>kernel = ''gather'', pattern = [1, 0], sparse = [DNaN, DInf True],
      dense = [dzero, dzero], nruns = 10, verbosity = 3, timer = timer_init,
      time_seconds = dzero\<rparr> =
   Returns ()
     \<lparr>kernel = ''gather'', pattern = [1, 0], sparse = [DNaN, DInf True],
      dense = [DInf True, DNaN], nruns = 10, verbosity = 3, timer = timer_init,
      time_seconds = dzero\<rparr> \<and>
   scatter False (DInf False)
     \<lparr>kernel = ''gather'', pattern = [1, 0], sparse = [DNaN, DInf True],
      dense = [dzero, dzero], nruns = 10, verbosity = 3, timer = timer_init,
      time_seconds = dzero\<rparr> =
   Returns ()
     \<lparr>kernel = ''gather'', pattern = [1, 0], sparse = [dzero, dzero],
      dense = [dzero, dzero], nruns = 10, verbosity = 3, timer = timer_init,
      time_seconds = dzero\<rparr>"
proof -
  let ?w = "\<lparr>kernel = ''gather'', pattern = [1, 0], sparse = [DNaN, DInf True],
      dense = [dzero, dzero], nruns = 10, verbosity = 3, timer = timer_init,
      time_seconds = dzero\<rparr>"
  have sz: "sized ?w" by (simp add: sized_def)
  have ne: "pattern ?w \<noteq> []" by simp
  from gather_keeps_sized [OF sz ne, of False "DInf False"] obtain g where
    g: "gather False (DInf False) ?w = Returns () g" and
    gd: "dense g = map (\<lambda>p. sparse ?w ! unat p) (pattern ?w)"
    by (elim exE conjE)
  note f1 = kernels_frame [of False "DInf False" ?w "()" g, THEN conjunct1, THEN mp, OF g]
  from f1 have "g = ?w\<lparr>dense := dense g, timer := timer g, time_seconds := time_seconds g\<rparr>"
    by (elim conjE)
  moreover from f1 have "time_seconds g = time_seconds ?w" and "timer g = timer ?w"
    by (elim conjE, simp)+
  ultimately have "g = ?w\<lparr>dense := dense g\<rparr>" by simp
  with gd have 1: "g = ?w\<lparr>dense := [DInf True, DNaN]\<rparr>" by simp
  from scatter_keeps_sized [OF sz ne, of False "DInf False"] obtain c where
    c: "scatter False (DInf False) ?w = Returns () c" by blast
  from scatter_returns [OF sz ne, of False "DInf False"] c obtain sp where
    cs: "c = ?w\<lparr>sparse := sp\<rparr>" and
    len: "length sp = length (sparse ?w)" and
    hit: "\<forall>j i. last_position (pattern ?w) j i \<longrightarrow> sp ! j = dense ?w ! i"
    by auto
  have "sp ! j = dzero" if "j < 2" for j
  proof -
    from that have "j \<in> unat ` set (pattern ?w)" by (auto simp: less_Suc_eq numeral_2_eq_2)
    from last_position_exists [OF this] obtain i where lp: "last_position (pattern ?w) j i" ..
    with hit have "sp ! j = dense ?w ! i" by blast
    with lp show ?thesis by (auto simp: last_position_def less_Suc_eq)
  qed
  then have "sp ! 0 = dzero" "sp ! 1 = dzero" by simp_all
  moreover from len have "length sp = 2" by simp
  ultimately have sp: "sp = [dzero, dzero]"
    by (cases sp; cases "tl sp") auto
  note f2 = kernels_frame [of False "DInf False" ?w "()" c, THEN conjunct2, THEN mp, OF c]
  from f2 have "c = ?w\<lparr>sparse := sparse c, timer := timer c, time_seconds := time_seconds c\<rparr>"
    by (elim conjE)
  moreover from f2 have "time_seconds c = time_seconds ?w" and "timer c = timer ?w"
    by (elim conjE, simp)+
  ultimately have "c = ?w\<lparr>sparse := sparse c\<rparr>" by simp
  moreover from cs have "sparse c = sp" by simp
  ultimately have 2: "c = ?w\<lparr>sparse := [dzero, dzero]\<rparr>" by (simp add: sp)
  from g 1 c 2 show ?thesis by simp
qed

lemma timed_calls_last:
  assumes "sized s" "pattern s \<noteq> []"
  shows "\<exists>s'. timed_calls cs s = Returns () s' \<and> sized s' \<and> pattern s' = pattern s \<and>
    time_seconds s' = (if cs = [] then time_seconds s else snd (last cs))"
  using assms
proof (induction cs arbitrary: s)
  case Nil
  then show ?case by simp
next
  case (Cons c cs)
  obtain g d where c: "c = (g, d)" by (cases c)
  have "\<exists>s1. (if g then gather True d s else scatter True d s) = Returns () s1 \<and>
      sized s1 \<and> pattern s1 = pattern s \<and> time_seconds s1 = d"
  proof (cases g)
    case True
    with gather_keeps_sized [OF Cons.prems, of True d] show ?thesis by auto
  next
    case False
    with scatter_keeps_sized [OF Cons.prems, of True d] show ?thesis by auto
  qed
  then obtain s1 where
    call: "(if g then gather True d s else scatter True d s) = Returns () s1" and
    sz: "sized s1" and p: "pattern s1 = pattern s" and t: "time_seconds s1 = d"
    by (elim exE conjE)
  from Cons.prems p have ne: "pattern s1 \<noteq> []" by simp
  from Cons.IH [OF sz ne] obtain s' where
    rest: "timed_calls cs s1 = Returns () s'" and sz': "sized s'" and
    p': "pattern s' = pattern s1" and
    t': "time_seconds s' = (if cs = [] then time_seconds s1 else snd (last cs))"
    by (elim exE conjE)
  have "timed_calls (c # cs) s = Returns () s'"
    unfolding c timed_calls.simps call outcome.case by (rule rest)
  moreover have "time_seconds s' = snd (last (c # cs))"
    using t t' c by simp
  ultimately show ?case using sz' p p' by simp
qed

subsection \<open>Setup\<close>

lemma fill_rand_returns:
  assumes "i \<le> n" "n \<le> length xs"
  shows "fill_rand rnd c i n xs =
    Some (take i xs @ map (\<lambda>k. double_of_nat (rnd (c + k))) [i..<n] @ drop n xs)"
  using assms
proof (induction rnd c i n xs rule: fill_rand.induct)
  case (1 rnd c i n xs)
  show ?case
  proof (cases "i < n")
    case False
    with "1.prems" have "i = n" by simp
    then show ?thesis by (simp add: fill_rand.simps [of rnd c n n xs])
  next
    case True
    let ?v = "double_of_nat (rnd (c + i))"
    from True "1.prems" have il: "i < length xs" by simp
    have "fill_rand rnd c (Suc i) n (xs[i := ?v]) =
      Some (take (Suc i) (xs[i := ?v]) @ map (\<lambda>k. double_of_nat (rnd (c + k))) [Suc i..<n]
        @ drop n (xs[i := ?v]))"
      using True "1.prems" by (intro "1.IH" [OF True il]) simp_all
    moreover have "take (Suc i) (xs[i := ?v]) = take i xs @ [?v]"
      using il by (simp add: take_Suc_conv_app_nth)
    moreover have "drop n (xs[i := ?v]) = drop n xs" using True by simp
    moreover have "[i..<n] = i # [Suc i..<n]" using True by (simp add: upt_conv_Cons)
    ultimately show ?thesis
      using True il by (simp add: fill_rand.simps [of rnd c i n xs])
  qed
qed

lemma fill_rand_all:
  "fill_rand rnd c 0 (length xs) xs =
     Some (map (\<lambda>k. double_of_nat (rnd (c + k))) [0..<length xs])"
  by (simp add: fill_rand_returns)

lemma Max_insert_max:
  assumes "finite S"
  shows "Max (insert (max a b) S) = Max (insert (a::nat) (insert b S))"
proof (cases "S = {}")
  case True
  then show ?thesis by (simp add: max.commute)
next
  case False
  with assms show ?thesis by (simp add: max.assoc)
qed

lemma max_loop_Max:
  "unat (max_loop i ps m) = Max (insert (unat m) (unat ` set (drop i ps)))"
proof (induction i ps m rule: max_loop.induct)
  case (1 i ps m)
  show ?case
  proof (cases "i < length ps")
    case False
    then show ?thesis by (simp add: max_loop.simps [of i ps m])
  next
    case True
    let ?m' = "if m < ps ! i then ps ! i else m"
    have m': "unat ?m' = max (unat m) (unat (ps ! i))"
      by (simp add: word_less_nat_alt max_def)
    have dr: "drop i ps = ps ! i # drop (Suc i) ps"
      using True by (simp add: Cons_nth_drop_Suc)
    have "unat (max_loop i ps m) = unat (max_loop (Suc i) ps ?m')"
      using True by (simp add: max_loop.simps [of i ps m])
    also have "\<dots> = Max (insert (unat ?m') (unat ` set (drop (Suc i) ps)))"
      by (rule "1.IH" [OF True])
    also have "\<dots> = Max (insert (unat m) (unat ` set (drop i ps)))"
      unfolding m' dr by (simp only: Max_insert_max [OF finite_imageI [OF finite_set]] list.set image_insert)
    finally show ?thesis .
  qed
qed

lemma max_loop_pattern:
  assumes "ps \<noteq> []"
  shows "unat (max_loop 0 ps 0) = Max (unat ` set ps)"
proof -
  from assms have ne: "unat ` set ps \<noteq> {}" by simp
  have "unat (max_loop 0 ps 0) = Max (insert 0 (unat ` set ps))"
    by (simp add: max_loop_Max)
  also have "\<dots> = max 0 (Max (unat ` set ps))"
    using ne by (simp add: Max_insert)
  finally show ?thesis by simp
qed

lemma resize_length: "resize alloc n xs = Some ys \<Longrightarrow> length ys = n"
  by (auto simp: resize_def split: if_splits)


lemma base_setup_empty:
  "pattern s = [] \<Longrightarrow> base_setup alloc rnd s = Aborts (Exit 1) s"
  by (simp add: base_setup_def)

lemma base_setup_cases:
  assumes "pattern s \<noteq> []"
  shows "base_setup alloc rnd s =
    (case resize alloc (length (pattern s)) (dense s) of
       None \<Rightarrow> Aborts Bad_Alloc s
     | Some d0 \<Rightarrow>
         let d1 = map (\<lambda>k. double_of_nat (rnd k)) [0..<length (pattern s)] in
         (case resize alloc (unat (max_loop 0 (pattern s) 0 + 1)) (sparse s) of
            None \<Rightarrow> Aborts Bad_Alloc (s\<lparr>dense := d1\<rparr>)
          | Some sp0 \<Rightarrow>
              Returns () (s\<lparr>dense := d1,
                sparse := map (\<lambda>k. double_of_nat (rnd (length (pattern s) + k)))
                            [0..<unat (max_loop 0 (pattern s) 0 + 1)]\<rparr>)))"
proof (cases "resize alloc (length (pattern s)) (dense s)")
  case None
  with assms show ?thesis by (simp add: base_setup_def)
next
  case (Some d0)
  then have l0: "length d0 = length (pattern s)" by (rule resize_length)
  have f0: "fill_rand rnd 0 0 (length (pattern s)) d0 =
      Some (map (\<lambda>k. double_of_nat (rnd k)) [0..<length (pattern s)])"
    using fill_rand_all [of rnd 0 d0] by (simp add: l0)
  show ?thesis
  proof (cases "resize alloc (unat (max_loop 0 (pattern s) 0 + 1)) (sparse s)")
    case None
    with assms Some f0 show ?thesis by (simp add: base_setup_def)
  next
    case sp: (Some sp0)
    then have l1: "length sp0 = unat (max_loop 0 (pattern s) 0 + 1)" by (rule resize_length)
    have f1: "fill_rand rnd (length (pattern s)) 0 (unat (max_loop 0 (pattern s) 0 + 1)) sp0 =
      Some (map (\<lambda>k. double_of_nat (rnd (length (pattern s) + k)))
              [0..<unat (max_loop 0 (pattern s) 0 + 1)])"
      using fill_rand_all [of rnd "length (pattern s)" sp0] by (simp add: l1)
    from assms Some f0 sp f1 show ?thesis by (simp add: base_setup_def)
  qed
qed

lemma base_setup_returns:
  assumes "pattern s \<noteq> []" and "base_setup alloc rnd s = Returns u s'"
  shows "s' = s\<lparr>dense := map (\<lambda>k. double_of_nat (rnd k)) [0..<length (pattern s)],
      sparse := map (\<lambda>k. double_of_nat (rnd (length (pattern s) + k)))
                  [0..<unat (max_loop 0 (pattern s) 0 + 1)]\<rparr>"
  using assms(2) unfolding base_setup_cases [OF assms(1)]
  by (auto simp: Let_def split: option.splits)

lemma base_setup_aborts:
  assumes "pattern s \<noteq> []" and "base_setup alloc rnd s = Aborts e s'"
  shows "e = Bad_Alloc"
  using assms(2) unfolding base_setup_cases [OF assms(1)]
  by (auto simp: Let_def split: option.splits)

lemma base_setup_granted:
  assumes "pattern s \<noteq> []"
  shows "\<exists>s'. base_setup grant_all rnd s = Returns () s'"
  unfolding base_setup_cases [OF assms]
  by (auto simp: Let_def resize_def grant_all_def split: option.splits)


lemma serial_setup_sizes:
  assumes "pattern s \<noteq> []" and "serial_setup alloc rnd s = Returns u s'"
  shows "pattern s' = pattern s \<and> length (dense s') = length (pattern s) \<and>
    length (sparse s') = (Max (unat ` set (pattern s)) + 1) mod 2 ^ 64"
proof -
  from assms(2) have "base_setup alloc rnd s = Returns u s'" by (simp add: serial_setup_def)
  note r = base_setup_returns [OF assms(1) this]
  have "unat (max_loop 0 (pattern s) 0 + 1) = (Max (unat ` set (pattern s)) + 1) mod 2 ^ 64"
    by (simp add: unat_word_ariths max_loop_pattern [OF assms(1)])
  then show ?thesis by (subst r, simp)+
qed

text \<open>
  Every context that the constructor returns for a pattern whose largest index is below
  \<open>2\<^sup>6\<^sup>4 - 1\<close> is sized, and its pattern is the non-empty pattern it was given.
\<close>

lemma Configuration_sized:
  assumes "Configuration alloc rnd k p n v = Returns u s"
    and "Max (unat ` set p) < 2 ^ 64 - 1"
  shows "sized s \<and> pattern s = p \<and> p \<noteq> []"
proof -
  let ?b = "ConfigurationBase k p n v"
  have pb: "pattern ?b = p" by (simp add: ConfigurationBase_def)
  from assms(1) have st: "serial_setup alloc rnd ?b = Returns u s"
    by (simp add: Configuration_def)
  have ne: "pattern ?b \<noteq> []"
  proof
    assume "pattern ?b = []"
    from base_setup_empty [OF this, of alloc rnd] st show False
      by (simp add: serial_setup_def)
  qed
  from serial_setup_sizes [OF ne st] assms(2) have "sized s" and "pattern s = p"
    by (simp_all add: sized_def pb)
  with ne pb show ?thesis by simp
qed

lemma kernels_keep_sizes:
  "(gather t d c = Returns v c' \<longrightarrow>
      pattern c' = pattern c \<and> length (dense c') = length (dense c) \<and> sparse c' = sparse c) \<and>
   (scatter t d c = Returns v c' \<longrightarrow>
      pattern c' = pattern c \<and> dense c' = dense c \<and> length (sparse c') = length (sparse c))"
proof (intro conjI impI)
  assume g: "gather t d c = Returns v c'"
  then obtain s1 where
    loop: "gather_loop 0 (start_timing t c) = Returns () s1" and
    stop: "stop_timing t d s1 = Returns v c'"
    by (auto simp: gather_def split: outcome.splits)
  from gather_loop_frame [OF loop] obtain ds where
    s1: "s1 = start_timing t c\<lparr>dense := ds\<rparr>" and
    len: "length ds = length (dense (start_timing t c))" by blast
  from stop_timing_frame [OF stop] have
    a: "c' = s1\<lparr>timer := timer c', time_seconds := time_seconds c'\<rparr>" by simp
  have "dense c' = ds" by (subst a) (simp add: s1)
  with len show "length (dense c') = length (dense c)" by (simp add: start_timing_def)
  show "pattern c' = pattern c" by (subst a) (simp add: s1 start_timing_def)
  show "sparse c' = sparse c" by (subst a) (simp add: s1 start_timing_def)
next
  assume g: "scatter t d c = Returns v c'"
  then obtain s1 where
    loop: "scatter_loop 0 (start_timing t c) = Returns () s1" and
    stop: "stop_timing t d s1 = Returns v c'"
    by (auto simp: scatter_def split: outcome.splits)
  from scatter_loop_frame [OF loop] obtain sp where
    s1: "s1 = start_timing t c\<lparr>sparse := sp\<rparr>" and
    len: "length sp = length (sparse (start_timing t c))" by blast
  from stop_timing_frame [OF stop] have
    a: "c' = s1\<lparr>timer := timer c', time_seconds := time_seconds c'\<rparr>" by simp
  have "sparse c' = sp" by (subst a) (simp add: s1)
  with len show "length (sparse c') = length (sparse c)" by (simp add: start_timing_def)
  show "pattern c' = pattern c" by (subst a) (simp add: s1 start_timing_def)
  show "dense c' = dense c" by (subst a) (simp add: s1 start_timing_def)
qed

lemma run_keeps_sizes:
  assumes "run t d c = Returns r c'"
  shows "pattern c' = pattern c \<and> length (dense c') = length (dense c) \<and>
    length (sparse c') = length (sparse c)"
proof -
  consider (g) v where "gather t d c = Returns v c'"
    | (s) v where "scatter t d c = Returns v c'"
    | (n) "c' = c"
    using assms by (auto simp: run_def split: if_splits outcome.splits)
  then show ?thesis
  proof cases
    case g
    with kernels_keep_sizes [of t d c v c'] show ?thesis by simp
  next
    case s
    with kernels_keep_sizes [of t d c v c'] show ?thesis by simp
  next
    case n
    then show ?thesis by simp
  qed
qed

text \<open>
  C4, amended. For a non-empty pattern whose largest index is below \<open>2\<^sup>6\<^sup>4 - 1\<close>, a
  \<^verbatim>\<open>setup\<close> that returns leaves a sized context: the dense buffer is as long as the
  pattern and the sparse buffer has one slot more than the largest index. For every
  non-empty pattern the length of the sparse buffer is that sum modulo \<open>2\<^sup>6\<^sup>4\<close>. Every
  \<^verbatim>\<open>gather\<close>, \<^verbatim>\<open>scatter\<close>, \<^verbatim>\<open>run\<close> and \<^verbatim>\<open>report\<close> that returns on a sized context
  leaves the pattern as it was and the context sized.
\<close>

theorem setup_establishes_sizes:
  "(pattern s \<noteq> [] \<and> serial_setup alloc rnd s = Returns u s' \<longrightarrow>
      pattern s' = pattern s \<and> length (dense s') = length (pattern s) \<and>
      length (sparse s') = (Max (unat ` set (pattern s)) + 1) mod 2 ^ 64 \<and>
      (Max (unat ` set (pattern s)) < 2 ^ 64 - 1 \<longrightarrow> sized s')) \<and>
   (sized c \<and> gather t d c = Returns v c' \<longrightarrow> sized c' \<and> pattern c' = pattern c) \<and>
   (sized c \<and> scatter t d c = Returns v c' \<longrightarrow> sized c' \<and> pattern c' = pattern c) \<and>
   (sized c \<and> run t d c = Returns r c' \<longrightarrow> sized c' \<and> pattern c' = pattern c) \<and>
   (sized c \<and> report c = Returns f c' \<longrightarrow> sized c' \<and> pattern c' = pattern c)"
proof (intro conjI impI)
  assume a: "pattern s \<noteq> [] \<and> serial_setup alloc rnd s = Returns u s'"
  then have ne: "pattern s \<noteq> []" and st: "serial_setup alloc rnd s = Returns u s'"
    by simp_all
  note sz = serial_setup_sizes [OF ne st]
  from sz show "pattern s' = pattern s" by simp
  from sz show "length (dense s') = length (pattern s)" by simp
  from sz show "length (sparse s') = (Max (unat ` set (pattern s)) + 1) mod 2 ^ 64" by simp
  assume "Max (unat ` set (pattern s)) < 2 ^ 64 - 1"
  then have "(Max (unat ` set (pattern s)) + 1) mod 2 ^ 64 = Max (unat ` set (pattern s)) + 1"
    by simp
  with sz show "sized s'" by (simp add: sized_def)
next
  assume "sized c \<and> gather t d c = Returns v c'"
  with kernels_keep_sizes [of t d c v c']
  show "sized c'" "pattern c' = pattern c" by (simp_all add: sized_def)
next
  assume "sized c \<and> scatter t d c = Returns v c'"
  with kernels_keep_sizes [of t d c v c']
  show "sized c'" "pattern c' = pattern c" by (simp_all add: sized_def)
next
  assume "sized c \<and> run t d c = Returns r c'"
  with run_keeps_sizes [of t d c r c']
  show "sized c'" "pattern c' = pattern c" by (simp_all add: sized_def)
next
  assume "sized c \<and> report c = Returns f c'"
  then show "sized c'" "pattern c' = pattern c" by (auto simp: report_def)
qed


theorem setup_establishes_sizes_witness:
  "\<exists>s'. serial_setup grant_all rand_count (ConfigurationBase ''Gather'' [3, 1] 10 3) =
       Returns () s' \<and>
     pattern s' = [3, 1] \<and> length (dense s') = 2 \<and> length (sparse s') = 4 \<and> sized s' \<and>
     (\<exists>c'. gather True (DFinite False 1 0) s' = Returns () c' \<and> sized c' \<and> pattern c' = [3, 1]) \<and>
     (\<exists>c'. scatter True (DFinite False 1 0) s' = Returns () c' \<and> sized c' \<and> pattern c' = [3, 1]) \<and>
     (\<exists>c'. run True (DFinite False 1 0) s' = Returns 0 c' \<and> sized c' \<and> pattern c' = [3, 1]) \<and>
     (\<exists>f c'. report s' = Returns f c' \<and> sized c' \<and> pattern c' = [3, 1])"
proof -
  let ?b = "ConfigurationBase ''Gather'' [3, 1] 10 3"
  let ?d = "DFinite False 1 0"
  have ne: "pattern ?b \<noteq> []" and p: "pattern ?b = [3, 1]"
    by (simp_all add: ConfigurationBase_def)
  have kb: "kernel ?b = ''gather''"
    by (simp add: ConfigurationBase_def tolower_def char_of_eq_iff)
  from base_setup_granted [OF ne, of rand_count] obtain s' where
    st: "serial_setup grant_all rand_count ?b = Returns () s'"
    by (auto simp: serial_setup_def)
  have mx: "Max (unat ` set (pattern ?b)) = 3" by (simp add: p)
  note th = setup_establishes_sizes [of ?b grant_all rand_count "()" s',
      THEN conjunct1, THEN mp, OF conjI [OF ne st]]
  from th have ps: "pattern s' = [3, 1]" and ld: "length (dense s') = 2"
    and ls: "length (sparse s') = 4" and sz: "sized s'"
    by (simp_all add: mx) (simp_all add: p)
  from st have "base_setup grant_all rand_count ?b = Returns () s'"
    by (simp add: serial_setup_def)
  note e = base_setup_returns [OF ne this]
  have "kernel s' = kernel ?b" by (subst e) simp
  with kb have k: "kernel s' = ''gather''" by simp
  have pn: "pattern s' \<noteq> []" by (simp add: ps)
  from gather_keeps_sized [OF sz pn, of True ?d] obtain g where
    g: "gather True ?d s' = Returns () g" by blast
  from scatter_keeps_sized [OF sz pn, of True ?d] obtain c where
    c: "scatter True ?d s' = Returns () c" by blast
  from g k have r: "run True ?d s' = Returns 0 g" by (simp add: run_def)
  have rp: "report s' = Returns (''Spatter Serial Report'', base_report s') s'"
    by (simp add: report_def)
  from setup_establishes_sizes [of ?b grant_all rand_count "()" s' s' True ?d "()" g] sz g
  have 1: "sized g \<and> pattern g = pattern s'" by blast
  from setup_establishes_sizes [of ?b grant_all rand_count "()" s' s' True ?d "()" c] sz c
  have 2: "sized c \<and> pattern c = pattern s'" by blast
  from setup_establishes_sizes [of ?b grant_all rand_count "()" s' s' True ?d "()" g 0] sz r
  have 3: "sized g \<and> pattern g = pattern s'" by blast
  from setup_establishes_sizes [of ?b grant_all rand_count "()" s' s' True ?d "()" s' 0
      "(''Spatter Serial Report'', base_report s')"] sz rp
  have 4: "sized s' \<and> pattern s' = pattern s'" by blast
  from g 1 have G: "\<exists>c'. gather True ?d s' = Returns () c' \<and> sized c' \<and> pattern c' = [3, 1]"
    by (auto simp: ps)
  from c 2 have S: "\<exists>c'. scatter True ?d s' = Returns () c' \<and> sized c' \<and> pattern c' = [3, 1]"
    by (auto simp: ps)
  from r 3 have R: "\<exists>c'. run True ?d s' = Returns 0 c' \<and> sized c' \<and> pattern c' = [3, 1]"
    by (auto simp: ps)
  from rp 4 have P: "\<exists>f c'. report s' = Returns f c' \<and> sized c' \<and> pattern c' = [3, 1]"
    by (auto simp: ps)
  from st ps ld ls sz G S R P show ?thesis by blast
qed

text \<open>
  The claim as stated fails for the pattern that holds the index \<open>2\<^sup>6\<^sup>4 - 1\<close>:
  \<^verbatim>\<open>max_pattern_val + 1\<close> is 0, \<^verbatim>\<open>setup\<close> returns, and the sparse buffer is empty.
\<close>

theorem setup_establishes_sizes_counterexample:
  "serial_setup grant_all rand_count (ConfigurationBase ''gather'' [18446744073709551615] 10 3) =
     Returns ()
       \<lparr>kernel = ''gather'', pattern = [18446744073709551615],
        sparse = [], dense = [double_of_nat 1],
        nruns = 10, verbosity = 3, timer = timer_init, time_seconds = dzero\<rparr> \<and>
   \<not> sized \<lparr>kernel = ''gather'', pattern = [18446744073709551615],
        sparse = [], dense = [double_of_nat 1],
        nruns = 10, verbosity = 3, timer = timer_init, time_seconds = dzero\<rparr> \<and>
   gather False dzero \<lparr>kernel = ''gather'', pattern = [18446744073709551615],
        sparse = [], dense = [double_of_nat 1],
        nruns = 10, verbosity = 3, timer = timer_init, time_seconds = dzero\<rparr> =
     Aborts Undefined_Access \<lparr>kernel = ''gather'', pattern = [18446744073709551615],
        sparse = [], dense = [double_of_nat 1],
        nruns = 10, verbosity = 3, timer = timer_init, time_seconds = dzero\<rparr>"
proof -
  let ?b = "ConfigurationBase ''gather'' [18446744073709551615] 10 3"
  have ne: "pattern ?b \<noteq> []" by (simp add: ConfigurationBase_def)
  have mx: "max_loop 0 [18446744073709551615] 0 = 18446744073709551615"
    by (simp add: max_loop.simps [of _ "[18446744073709551615]"])
  have "serial_setup grant_all rand_count ?b = Returns ()
       \<lparr>kernel = ''gather'', pattern = [18446744073709551615],
        sparse = [], dense = [double_of_nat 1],
        nruns = 10, verbosity = 3, timer = timer_init, time_seconds = dzero\<rparr>"
    unfolding serial_setup_def base_setup_cases [OF ne]
    by (simp add: ConfigurationBase_def resize_def grant_all_def rand_count_def mx tolower_def
        char_of_eq_iff)
  moreover have "\<not> sized \<lparr>kernel = ''gather'', pattern = [18446744073709551615],
        sparse = [], dense = [double_of_nat 1],
        nruns = 10, verbosity = 3, timer = timer_init, time_seconds = dzero\<rparr>"
    by (simp add: sized_def)
  moreover have "gather False dzero \<lparr>kernel = ''gather'', pattern = [18446744073709551615],
        sparse = [], dense = [double_of_nat 1],
        nruns = 10, verbosity = 3, timer = timer_init, time_seconds = dzero\<rparr> =
     Aborts Undefined_Access \<lparr>kernel = ''gather'', pattern = [18446744073709551615],
        sparse = [], dense = [double_of_nat 1],
        nruns = 10, verbosity = 3, timer = timer_init, time_seconds = dzero\<rparr>"
    by (simp add: gather_def start_timing_def gather_loop.simps)
  ultimately show ?thesis by blast
qed


text \<open>
  C6. On a context with an empty pattern \<^verbatim>\<open>setup\<close> stops the process with
  \<^verbatim>\<open>exit(1)\<close> before it touches a buffer, whatever the allocator would answer: the
  constructor with an empty pattern ends there with both buffers empty. On a non-empty
  pattern \<^verbatim>\<open>setup\<close> never ends in that \<^verbatim>\<open>exit\<close>.
\<close>

theorem empty_pattern_exits:
  "(pattern s = [] \<longrightarrow> serial_setup alloc rnd s = Aborts (Exit 1) s) \<and>
   Configuration alloc rnd k [] n v = Aborts (Exit 1) (ConfigurationBase k [] n v) \<and>
   dense (ConfigurationBase k [] n v) = [] \<and>
   sparse (ConfigurationBase k [] n v) = [] \<and>
   (pattern s \<noteq> [] \<longrightarrow> (\<forall>m s'. serial_setup alloc rnd s \<noteq> Aborts (Exit m) s'))"
proof (intro conjI impI allI)
  assume "pattern s = []"
  then show "serial_setup alloc rnd s = Aborts (Exit 1) s"
    by (simp add: serial_setup_def base_setup_empty)
next
  have "pattern (ConfigurationBase k [] n v) = []" by (simp add: ConfigurationBase_def)
  then show "Configuration alloc rnd k [] n v = Aborts (Exit 1) (ConfigurationBase k [] n v)"
    by (simp add: Configuration_def serial_setup_def base_setup_empty)
next
  show "dense (ConfigurationBase k [] n v) = []" by (simp add: ConfigurationBase_def)
  show "sparse (ConfigurationBase k [] n v) = []" by (simp add: ConfigurationBase_def)
next
  fix m s'
  assume ne: "pattern s \<noteq> []"
  show "serial_setup alloc rnd s \<noteq> Aborts (Exit m) s'"
  proof
    assume "serial_setup alloc rnd s = Aborts (Exit m) s'"
    then have "base_setup alloc rnd s = Aborts (Exit m) s'" by (simp add: serial_setup_def)
    from base_setup_aborts [OF ne this] show False by simp
  qed
qed

theorem empty_pattern_exits_witness:
  "pattern (ConfigurationBase ''gather'' [] 10 3) = [] \<and>
   serial_setup grant_all rand_count (ConfigurationBase ''gather'' [] 10 3) =
     Aborts (Exit 1) (ConfigurationBase ''gather'' [] 10 3) \<and>
   pattern (ConfigurationBase ''gather'' [5] 10 3) \<noteq> [] \<and>
   (\<forall>m s'. serial_setup grant_none rand_count (ConfigurationBase ''gather'' [5] 10 3) \<noteq>
      Aborts (Exit m) s')"
  using empty_pattern_exits [of "ConfigurationBase ''gather'' [] 10 3" grant_all rand_count]
    empty_pattern_exits [of "ConfigurationBase ''gather'' [5] 10 3" grant_none rand_count]
  by (simp add: ConfigurationBase_def)

subsection \<open>Dispatch on the kernel name\<close>

lemma same_letter_lower:
  assumes "\<not> is_upper t"
  shows "same_letter c t \<longleftrightarrow> tolower c = t"
proof (cases "is_upper c")
  case False
  with assms show ?thesis by (auto simp: same_letter_def tolower_def is_upper_def)
next
  case True
  with assms have ne: "c \<noteq> t" by auto
  from True have "(of_char c :: nat) + 32 < 2 ^ 8" by (simp add: is_upper_def)
  then have "take_bit 8 ((of_char c :: nat) + 32) = of_char c + 32"
    by (rule take_bit_nat_eq_self)
  then have "char_of ((of_char c :: nat) + 32) = t \<longleftrightarrow> (of_char t :: nat) = of_char c + 32"
    by (auto simp: char_of_eq_iff)
  with True assms ne show ?thesis
    by (auto simp: same_letter_def tolower_def is_upper_def)
qed

lemma ci_equal_lower:
  assumes "\<forall>t\<in>set b. \<not> is_upper t"
  shows "ci_equal a b \<longleftrightarrow> map tolower a = b"
  using assms
proof (induction a arbitrary: b)
  case Nil
  then show ?case by (auto simp: ci_equal_def)
next
  case (Cons c a)
  show ?case
  proof (cases b)
    case Nil
    then show ?thesis by (simp add: ci_equal_def)
  next
    case (Cons t b')
    with Cons.prems have t: "\<not> is_upper t" and b': "\<forall>t\<in>set b'. \<not> is_upper t" by simp_all
    from Cons.IH [OF b'] have "list_all2 same_letter a b' \<longleftrightarrow> map tolower a = b'"
      by (simp add: ci_equal_def)
    with same_letter_lower [OF t, of c] Cons show ?thesis by (simp add: ci_equal_def)
  qed
qed

lemma ci_equal_gather: "ci_equal k ''gather'' \<longleftrightarrow> map tolower k = ''gather''"
  by (rule ci_equal_lower) (simp add: is_upper_def)

lemma ci_equal_scatter: "ci_equal k ''scatter'' \<longleftrightarrow> map tolower k = ''scatter''"
  by (rule ci_equal_lower) (simp add: is_upper_def)

lemma Configuration_kernel:
  assumes "Configuration alloc rnd k p n v = Returns u s"
  shows "kernel s = map tolower k"
proof -
  let ?b = "ConfigurationBase k p n v"
  from assms have st: "base_setup alloc rnd ?b = Returns u s"
    by (simp add: Configuration_def serial_setup_def)
  have ne: "pattern ?b \<noteq> []"
  proof
    assume "pattern ?b = []"
    from base_setup_empty [OF this, of alloc rnd] st show False by simp
  qed
  note e = base_setup_returns [OF ne st]
  have "kernel s = kernel ?b" by (subst e) simp
  then show ?thesis by (simp add: ConfigurationBase_def)
qed

subsection \<open>The report\<close>

lemma bit_len_bounds:
  "0 < n \<Longrightarrow> 2 ^ (bit_len n - 1) \<le> n \<and> n < 2 ^ bit_len n"
proof (induction n rule: bit_len.induct)
  case (1 n)
  show ?case
  proof (cases "n div 2 = 0")
    case True
    with "1.prems" have "n = 1" by (simp add: div_eq_0_iff)
    then show ?thesis by (simp add: bit_len.simps [of "Suc 0"] bit_len.simps [of 0])
  next
    case False
    then have pos: "0 < n div 2" by simp
    from "1.prems" have n0: "n \<noteq> 0" by simp
    from "1.IH" [OF n0 pos] have
      lo: "2 ^ (bit_len (n div 2) - 1) \<le> n div 2" and hi: "n div 2 < 2 ^ bit_len (n div 2)"
      by simp_all
    have bl: "bit_len n = Suc (bit_len (n div 2))"
      using n0 by (simp add: bit_len.simps [of n])
    have b1: "0 < bit_len (n div 2)"
      using pos by (simp add: bit_len.simps [of "n div 2"])
    then have "(2::nat) ^ bit_len (n div 2) = 2 * 2 ^ (bit_len (n div 2) - 1)"
      by (cases "bit_len (n div 2)") simp_all
    with lo have "2 ^ bit_len (n div 2) \<le> 2 * (n div 2)" by simp
    also have "\<dots> \<le> n" by simp
    finally have l: "2 ^ (bit_len n - 1) \<le> n" by (simp add: bl)
    from hi have "n < 2 * 2 ^ bit_len (n div 2)" by arith
    then have "n < 2 ^ bit_len n" by (simp add: bl)
    with l show ?thesis by simp
  qed
qed

lemma bit_len_le:
  assumes "0 < n" "n < 2 ^ j"
  shows "bit_len n \<le> j"
proof (rule ccontr)
  assume "\<not> bit_len n \<le> j"
  then have "j \<le> bit_len n - 1" by simp
  then have "(2::nat) ^ j \<le> 2 ^ (bit_len n - 1)" by (rule power_increasing) simp
  also from bit_len_bounds [OF assms(1)] have "\<dots> \<le> n" by simp
  finally show False using assms(2) by simp
qed

lemma bit_len_pos: "0 < n \<Longrightarrow> 0 < bit_len n"
  by (simp add: bit_len.simps [of n])

lemma rne_ge: "p div q \<le> rne p q"
  by (simp add: rne_def Let_def)

text \<open>The rounded significand is an integer nearest to the quotient.\<close>

lemma rne_nearest:
  assumes "0 < q"
  shows "2 * \<bar>int (rne p q) * int q - int p\<bar> \<le> int q"
proof -
  define n where "n = p div q"
  define r where "r = p mod q"
  have p: "p = n * q + r" by (simp add: n_def r_def)
  from assms have rq: "r < q" by (simp add: r_def)
  have d0: "int n * int q - int p = - int r" by (simp add: p)
  have d1: "int (n + 1) * int q - int p = int q - int r" by (simp add: p algebra_simps)
  consider "2 * r < q" | "q < 2 * r" | "2 * r = q" by linarith
  then show ?thesis
  proof cases
    case 1
    then have "rne p q = n" by (simp add: rne_def Let_def n_def r_def)
    with 1 d0 show ?thesis by simp
  next
    case 2
    then have "rne p q = n + 1" by (simp add: rne_def Let_def n_def r_def)
    with 2 rq d1 show ?thesis by simp
  next
    case 3
    then have "rne p q = n \<or> rne p q = n + 1" by (simp add: rne_def Let_def n_def r_def)
    with 3 rq d0 d1 show ?thesis by auto
  qed
qed

lemma round_pos_nat:
  assumes "0 < n" "n < 2 ^ 64"
  shows "\<exists>m e. round_pos sg n 1 = DFinite sg m e \<and> 0 < m"
proof -
  define k where "k = int (bit_len n) - 1"
  define e where "e = k - 52"
  define m where "m = rne (n * 2 ^ nat (- e)) (1 * 2 ^ nat e)"
  have b1: "bit_len 1 = 1" by (simp add: bit_len.simps [of "Suc 0"] bit_len.simps [of 0])
  from bit_len_pos [OF assms(1)] have k0: "0 \<le> k" by (simp add: k_def)
  from bit_len_le [OF assms] have k63: "k \<le> 63" by (simp add: k_def)
  have nk: "nat k = bit_len n - 1" by (simp add: k_def)
  from bit_len_bounds [OF assms(1)] have lo: "2 ^ nat k \<le> n" by (simp add: nk)
  from k0 have "nat (- k) = 0" by simp
  with lo have fl: "(1 * 2 ^ nat k \<le> n * 2 ^ nat (- k)) = True" by simp
  from k0 have emax: "max (k - 52) (- 1074) = e" by (simp add: e_def)
  from k63 have e11: "e \<le> 11" by (simp add: e_def)
  have "1 \<le> (n * 2 ^ nat (- e)) div (1 * 2 ^ nat e)"
  proof (cases "e \<le> 0")
    case True
    then have "nat e = 0" by simp
    moreover from assms(1) have "1 \<le> n * 2 ^ nat (- e)" by (simp add: Suc_le_eq)
    ultimately show ?thesis by simp
  next
    case False
    then have ne: "nat (- e) = 0" by simp
    from False k0 have "nat e \<le> nat k" by (simp add: e_def)
    then have "(2::nat) ^ nat e \<le> 2 ^ nat k" by (rule power_increasing) simp
    from this lo have "2 ^ nat e \<le> n" by (rule order_trans)
    then have "1 \<le> n div 2 ^ nat e" by (simp add: Suc_le_eq div_greater_zero_iff)
    with ne show ?thesis by simp
  qed
  also have "\<dots> \<le> m" unfolding m_def by (rule rne_ge)
  finally have mpos: "0 < m" by simp
  have "round_pos sg n 1 =
    (if m = 2 ^ 53
     then (if 971 < e + 1 then DInf sg else DFinite sg (2 ^ 52) (e + 1))
     else if 971 < e then DInf sg else DFinite sg m e)"
    unfolding round_pos_def b1 Let_def
    by (simp only: k_def [symmetric] of_nat_1 fl if_True emax m_def [symmetric])
  with e11 mpos show ?thesis by auto
qed

lemma double_of_nat_pos:
  assumes "0 < n" "n < 2 ^ 64"
  shows "\<exists>m e. double_of_nat n = DFinite False m e \<and> 0 < m"
  using round_pos_nat [OF assms, of False] assms(1) by (simp add: double_of_nat_def)


lemma bit_len_0: "bit_len 0 = 0"
  by (simp add: bit_len.simps [of 0])

lemma bit_len_Suc_0: "bit_len (Suc 0) = Suc 0"
  by (simp add: bit_len.simps [of "Suc 0"] bit_len_0)

lemma bit_len_1: "bit_len 1 = 1"
  by (simp add: bit_len_Suc_0)

lemma bit_len_Bit0: "bit_len (numeral (num.Bit0 n)) = Suc (bit_len (numeral n))"
  by (subst bit_len.simps) simp

lemma bit_len_Bit1: "bit_len (numeral (num.Bit1 n)) = Suc (bit_len (numeral n))"
  by (subst bit_len.simps) simp

lemmas bit_len_numeral = bit_len_0 bit_len_Suc_0 bit_len_1 bit_len_Bit0 bit_len_Bit1

lemmas double_eval = double_of_nat_def round_pos_def rne_def Let_def dzero_def bit_len_numeral

text \<open>
  The arithmetic agrees with binary64 on \<open>1 / 3\<close>, on \<open>1 / 10\<close>, on the ties
  \<open>2\<^sup>5\<^sup>3 + 1\<close> and \<open>2\<^sup>5\<^sup>3 + 3\<close>, which go to the even neighbour, and on
  \<open>2\<^sup>6\<^sup>4 - 1\<close>, which becomes \<open>2\<^sup>6\<^sup>4\<close>.
\<close>

lemma binary64_examples:
  "round_pos False 1 3 = DFinite False 6004799503160661 (- 54)"
  "round_pos False 1 10 = DFinite False 7205759403792794 (- 56)"
  "double_of_nat (2 ^ 53 + 1) = DFinite False 4503599627370496 1"
  "double_of_nat (2 ^ 53 + 3) = DFinite False 4503599627370498 1"
  "double_of_nat (2 ^ 64 - 1) = DFinite False 4503599627370496 12"
  by (simp_all add: double_eval)

lemma report_bandwidth_zero:
  assumes "is_zero (time_seconds s)"
  shows "bandwidth (base_report s) =
    (if total_bytes (base_report s) = 0 then DNaN else DInf (sign_bit (time_seconds s)))"
proof -
  let ?w = "nruns s * of_nat (length (pattern s)) * 8"
  from assms obtain t e where y: "time_seconds s = DFinite t 0 e"
    by (cases "time_seconds s") simp_all
  show ?thesis
  proof (cases "?w = 0")
    case True
    then show ?thesis by (simp add: base_report_def double_of_nat_def dzero_def y)
  next
    case False
    then have "0 < unat ?w" by (simp add: unat_gt_0)
    moreover have "unat ?w < 2 ^ 64" using unsigned_less [of ?w] by simp
    ultimately obtain m e' where
      "double_of_nat (unat ?w) = DFinite False m e'" "0 < m"
      using double_of_nat_pos by blast
    with False show ?thesis by (simp add: base_report_def y)
  qed
qed

text \<open>
  C7, amended. \<^verbatim>\<open>report\<close> divides by the elapsed seconds without a test. When they
  are zero the bandwidth figure is not a number if the 64-bit total of bytes is 0, and
  otherwise an infinity with the sign of the zero.
\<close>

theorem report_divides_by_zero_seconds:
  assumes "is_zero (time_seconds s)"
  shows "report s = Returns (''Spatter Serial Report'', base_report s) s \<and>
    bandwidth (base_report s) =
      (if total_bytes (base_report s) = 0 then DNaN else DInf (sign_bit (time_seconds s))) \<and>
    (is_nan (bandwidth (base_report s)) \<or> is_inf (bandwidth (base_report s)))"
  using report_bandwidth_zero [OF assms] by (simp add: report_def)

theorem report_divides_by_zero_seconds_witness:
  "is_zero (time_seconds (ConfigurationBase ''gather'' [0, 1, 2, 3] 0 3)) \<and>
   bandwidth (base_report (ConfigurationBase ''gather'' [0, 1, 2, 3] 0 3)) = DNaN \<and>
   is_zero (time_seconds
     ((ConfigurationBase ''gather'' [0, 1, 2, 3] 10 3)\<lparr>time_seconds := DFinite True 0 0\<rparr>)) \<and>
   bandwidth (base_report
     ((ConfigurationBase ''gather'' [0, 1, 2, 3] 10 3)\<lparr>time_seconds := DFinite True 0 0\<rparr>)) =
     DInf True"
  using report_divides_by_zero_seconds [of "ConfigurationBase ''gather'' [0, 1, 2, 3] 0 3"]
    report_divides_by_zero_seconds
      [of "(ConfigurationBase ''gather'' [0, 1, 2, 3] 10 3)\<lparr>time_seconds := DFinite True 0 0\<rparr>"]
  by (simp add: ConfigurationBase_def dzero_def base_report_def)

text \<open>
  The claim as stated fails on a context that has not been timed yet: its elapsed
  seconds are the 0 of the constructor, and with 10 runs of a pattern of length 4 the
  bandwidth figure of \<^verbatim>\<open>report\<close> is plus infinity.
\<close>

theorem report_divides_by_zero_seconds_counterexample:
  "is_zero (time_seconds (ConfigurationBase ''gather'' [0, 1, 2, 3] 10 3)) \<and>
   bandwidth (base_report (ConfigurationBase ''gather'' [0, 1, 2, 3] 10 3)) = DInf False \<and>
   is_inf (bandwidth (base_report (ConfigurationBase ''gather'' [0, 1, 2, 3] 10 3)))"
proof -
  have "ddiv (ddiv (double_of_nat 320) (DFinite False 0 (- 1074)))
      (DFinite False 1000000 0) = DInf False"
    by (simp add: double_eval)
  then show ?thesis by (simp add: ConfigurationBase_def dzero_def base_report_def)
qed

subsection \<open>The figures of the report\<close>

lemma total_bytes_unat:
  "unat (nruns s * of_nat (length (pattern s)) * 8 :: 64 word) =
     (unat (nruns s) * length (pattern s) * 8) mod 2 ^ 64"
proof -
  have "unat (nruns s * of_nat (length (pattern s)) * 8 :: 64 word) =
    (unat (nruns s * of_nat (length (pattern s)) :: 64 word) * 8) mod 2 ^ 64"
    by (simp add: unat_word_ariths)
  also have "unat (nruns s * of_nat (length (pattern s)) :: 64 word) =
    (unat (nruns s) * (length (pattern s) mod 2 ^ 64)) mod 2 ^ 64"
    by (simp add: unat_word_ariths unat_of_nat)
  also have "((unat (nruns s) * (length (pattern s) mod 2 ^ 64)) mod 2 ^ 64 * 8) mod 2 ^ 64 =
    (unat (nruns s) * length (pattern s) * 8) mod 2 ^ 64"
    by (simp add: mod_mult_left_eq mod_mult_right_eq)
  finally show ?thesis .
qed

lemma bytes_per_run_unat:
  "unat (of_nat (length (pattern s)) * 8 :: 64 word) = (length (pattern s) * 8) mod 2 ^ 64"
proof -
  have "unat (of_nat (length (pattern s)) * 8 :: 64 word) =
    ((length (pattern s) mod 2 ^ 64) * 8) mod 2 ^ 64"
    by (simp add: unat_word_ariths unat_of_nat)
  then show ?thesis by (simp add: mod_mult_left_eq)
qed

text \<open>
  C8, amended. \<^verbatim>\<open>report\<close> returns the figures of the base report. The total of
  bytes is \<open>N * P * 8\<close> modulo \<open>2\<^sup>6\<^sup>4\<close>, hence \<open>N * P * 8\<close> when that is below \<open>2\<^sup>6\<^sup>4\<close>;
  the bytes per run are \<open>P * 8\<close> for a pattern of fewer than \<open>2\<^sup>6\<^sup>1\<close> elements; the
  bandwidth is the \<^verbatim>\<open>double\<close> of the total, divided by the elapsed seconds and then by
  \<open>1000000\<close>, both in binary64. With \<open>N = 10\<close>, \<open>P = 4\<close> and one second the figures are
  320, 32 and the binary64 number nearest to \<open>32 / 100000\<close>, which is
  \<open>5902958103587057 * 2\<^sup>-\<^sup>6\<^sup>4\<close>.
\<close>

theorem report_figures:
  "report s = Returns (''Spatter Serial Report'', base_report s) s \<and>
   unat (total_bytes (base_report s)) = (unat (nruns s) * length (pattern s) * 8) mod 2 ^ 64 \<and>
   (unat (nruns s) * length (pattern s) * 8 < 2 ^ 64 \<longrightarrow>
      unat (total_bytes (base_report s)) = unat (nruns s) * length (pattern s) * 8) \<and>
   (length (pattern s) < 2 ^ 61 \<longrightarrow>
      unat (bytes_per_run (base_report s)) = length (pattern s) * 8) \<and>
   runs (base_report s) = nruns s \<and>
   seconds (base_report s) = time_seconds s \<and>
   bandwidth (base_report s) =
     ddiv (ddiv (double_of_nat (unat (total_bytes (base_report s)))) (time_seconds s))
       (DFinite False 1000000 0) \<and>
   (nruns s = 10 \<and> length (pattern s) = 4 \<and> time_seconds s = DFinite False 1 0 \<longrightarrow>
      total_bytes (base_report s) = 320 \<and> bytes_per_run (base_report s) = 32 \<and>
      bandwidth (base_report s) = round_pos False 32 100000 \<and>
      bandwidth (base_report s) = DFinite False 5902958103587057 (- 64))"
proof (intro conjI impI)
  show "report s = Returns (''Spatter Serial Report'', base_report s) s"
    by (simp add: report_def)
  show t: "unat (total_bytes (base_report s)) = (unat (nruns s) * length (pattern s) * 8) mod 2 ^ 64"
    using total_bytes_unat [of s] by (simp add: base_report_def)
  show "unat (total_bytes (base_report s)) = unat (nruns s) * length (pattern s) * 8"
    if "unat (nruns s) * length (pattern s) * 8 < 2 ^ 64"
    using t that by simp
  show "unat (bytes_per_run (base_report s)) = length (pattern s) * 8"
    if "length (pattern s) < 2 ^ 61"
  proof -
    from that have "length (pattern s) * 8 < 2 ^ 64" by simp
    with bytes_per_run_unat [of s] show ?thesis by (simp add: base_report_def)
  qed
  show "runs (base_report s) = nruns s" by (simp add: base_report_def)
  show "seconds (base_report s) = time_seconds s" by (simp add: base_report_def)
  show "bandwidth (base_report s) =
     ddiv (ddiv (double_of_nat (unat (total_bytes (base_report s)))) (time_seconds s))
       (DFinite False 1000000 0)"
    by (simp add: base_report_def)
next
  assume a: "nruns s = 10 \<and> length (pattern s) = 4 \<and> time_seconds s = DFinite False 1 0"
  have v: "ddiv (ddiv (double_of_nat 320) (DFinite False 1 0)) (DFinite False 1000000 0) =
      DFinite False 5902958103587057 (- 64)"
    by (simp add: double_eval)
  have r: "round_pos False 32 100000 = DFinite False 5902958103587057 (- 64)"
    by (simp add: double_eval)
  from a show "total_bytes (base_report s) = 320" by (simp add: base_report_def)
  from a show "bytes_per_run (base_report s) = 32" by (simp add: base_report_def)
  from a v show "bandwidth (base_report s) = DFinite False 5902958103587057 (- 64)"
    by (simp add: base_report_def)
  with r show "bandwidth (base_report s) = round_pos False 32 100000" by simp
qed

theorem report_figures_witness:
  "unat (nruns ((ConfigurationBase ''gather'' [0, 1, 2, 3] 10 3)
       \<lparr>time_seconds := DFinite False 1 0\<rparr>)) *
     length (pattern ((ConfigurationBase ''gather'' [0, 1, 2, 3] 10 3)
       \<lparr>time_seconds := DFinite False 1 0\<rparr>)) * 8 < 2 ^ 64 \<and>
   length (pattern ((ConfigurationBase ''gather'' [0, 1, 2, 3] 10 3)
       \<lparr>time_seconds := DFinite False 1 0\<rparr>)) < 2 ^ 61 \<and>
   unat (total_bytes (base_report
     ((ConfigurationBase ''gather'' [0, 1, 2, 3] 10 3)\<lparr>time_seconds := DFinite False 1 0\<rparr>))) = 320 \<and>
   unat (bytes_per_run (base_report
     ((ConfigurationBase ''gather'' [0, 1, 2, 3] 10 3)\<lparr>time_seconds := DFinite False 1 0\<rparr>))) = 32 \<and>
   bandwidth (base_report
     ((ConfigurationBase ''gather'' [0, 1, 2, 3] 10 3)\<lparr>time_seconds := DFinite False 1 0\<rparr>)) =
     DFinite False 5902958103587057 (- 64)"
proof -
  let ?c = "(ConfigurationBase ''gather'' [0, 1, 2, 3] 10 3)\<lparr>time_seconds := DFinite False 1 0\<rparr>"
  have n: "nruns ?c = 10" and p: "length (pattern ?c) = 4"
    and ts: "time_seconds ?c = DFinite False 1 0"
    by (simp_all add: ConfigurationBase_def)
  have h1: "unat (nruns ?c) * length (pattern ?c) * 8 < 2 ^ 64"
    by (simp add: ConfigurationBase_def)
  have h2: "length (pattern ?c) < 2 ^ 61" by (simp add: ConfigurationBase_def)
  note th = report_figures [of ?c]
  from th h1 have "unat (total_bytes (base_report ?c)) = unat (nruns ?c) * length (pattern ?c) * 8"
    by blast
  then have 1: "unat (total_bytes (base_report ?c)) = 320" by (simp add: ConfigurationBase_def)
  from th h2 have "unat (bytes_per_run (base_report ?c)) = length (pattern ?c) * 8" by blast
  then have 2: "unat (bytes_per_run (base_report ?c)) = 32" by (simp add: ConfigurationBase_def)
  from th n p ts have 3: "bandwidth (base_report ?c) = DFinite False 5902958103587057 (- 64)"
    by blast
  from h1 h2 1 2 3 show ?thesis by blast
qed

text \<open>
  The claim as stated fails for \<open>N = 2\<^sup>6\<^sup>1\<close> runs of a pattern of one element: the
  product \<open>N * P * 8\<close> is \<open>2\<^sup>6\<^sup>4\<close>, and the total that \<^verbatim>\<open>report\<close> prints is 0.
\<close>

theorem report_figures_counterexample:
  "unat (nruns (ConfigurationBase ''gather'' [0] 2305843009213693952 3)) *
     length (pattern (ConfigurationBase ''gather'' [0] 2305843009213693952 3)) * 8 =
     18446744073709551616 \<and>
   total_bytes (base_report (ConfigurationBase ''gather'' [0] 2305843009213693952 3)) = 0"
  by (simp add: ConfigurationBase_def base_report_def)

subsection \<open>Constructed contexts, timed calls and the kernel name\<close>

lemma Configuration_granted:
  assumes "p \<noteq> []"
  shows "\<exists>c. Configuration grant_all rnd k p n v = Returns () c"
proof -
  have "pattern (ConfigurationBase k p n v) \<noteq> []"
    using assms by (simp add: ConfigurationBase_def)
  from base_setup_granted [OF this, of rnd] show ?thesis
    by (simp add: Configuration_def serial_setup_def)
qed

text \<open>
  The constructor on the pattern that holds only the index \<open>2\<^sup>6\<^sup>4 - 1\<close>: the sparse
  buffer is empty, and both kernels leave it through an access outside that buffer.
\<close>

lemma Configuration_wraps:
  "Configuration grant_all rnd k [18446744073709551615] n v =
     Returns ()
       \<lparr>kernel = map tolower k, pattern = [18446744073709551615], sparse = [],
        dense = [double_of_nat (rnd 0)], nruns = n, verbosity = v, timer = timer_init,
        time_seconds = dzero\<rparr>"
proof -
  let ?b = "ConfigurationBase k [18446744073709551615] n v"
  have ne: "pattern ?b \<noteq> []" by (simp add: ConfigurationBase_def)
  have mx: "max_loop 0 [18446744073709551615] 0 = 18446744073709551615"
    by (simp add: max_loop.simps [of _ "[18446744073709551615]"])
  show ?thesis
    unfolding Configuration_def serial_setup_def base_setup_cases [OF ne]
    by (simp add: ConfigurationBase_def resize_def grant_all_def mx)
qed

lemma gather_outside_empty_sparse:
  assumes "pattern s \<noteq> []" and "sparse s = []"
  shows "gather timed d s = Aborts Undefined_Access (start_timing timed s)"
proof -
  let ?s0 = "start_timing timed s"
  from assms have "0 < length (pattern ?s0)" and "sparse ?s0 = []"
    by (simp_all add: start_timing_def)
  then have "gather_loop 0 ?s0 = Aborts Undefined_Access ?s0"
    by (simp add: gather_loop.simps [of 0 ?s0])
  then show ?thesis by (simp add: gather_def)
qed

lemma scatter_outside_empty_sparse:
  assumes "pattern s \<noteq> []" and "sparse s = []"
  shows "scatter timed d s = Aborts Undefined_Access (start_timing timed s)"
proof -
  let ?s0 = "start_timing timed s"
  from assms have "0 < length (pattern ?s0)" and "sparse ?s0 = []"
    by (simp_all add: start_timing_def)
  then have "scatter_loop 0 ?s0 = Aborts Undefined_Access ?s0"
    by (simp add: scatter_loop.simps [of 0 ?s0])
  then show ?thesis by (simp add: scatter_def)
qed

lemma stop_timing_seconds:
  assumes "stop_timing True d s = Returns u s'"
  shows "time_seconds s' = d"
  using assms
  by (auto simp: stop_timing_def timer_stop_def timer_seconds_def split: if_splits)

lemma timed_gather_seconds:
  assumes "gather True d s = Returns u s'"
  shows "time_seconds s' = d"
proof -
  from assms obtain s1 where "stop_timing True d s1 = Returns u s'"
    by (auto simp: gather_def split: outcome.splits)
  then show ?thesis by (rule stop_timing_seconds)
qed

lemma timed_scatter_seconds:
  assumes "scatter True d s = Returns u s'"
  shows "time_seconds s' = d"
proof -
  from assms obtain s1 where "stop_timing True d s1 = Returns u s'"
    by (auto simp: scatter_def split: outcome.splits)
  then show ?thesis by (rule stop_timing_seconds)
qed

lemma timed_calls_seconds:
  assumes "timed_calls cs s = Returns u s'" and "cs \<noteq> []"
  shows "time_seconds s' = snd (last cs)"
  using assms
proof (induction cs arbitrary: s)
  case Nil
  then show ?case by simp
next
  case (Cons c cs)
  obtain g d where c: "c = (g, d)" by (cases c)
  from Cons.prems(1) obtain v s1 where
    call: "(if g then gather True d s else scatter True d s) = Returns v s1" and
    rest: "timed_calls cs s1 = Returns u s'"
    by (auto simp: c split: outcome.splits)
  from call have t1: "time_seconds s1 = d"
    by (auto split: if_splits dest: timed_gather_seconds timed_scatter_seconds)
  show ?case
  proof (cases "cs = []")
    case True
    with rest have "s' = s1" by simp
    with t1 True c show ?thesis by simp
  next
    case False
    from Cons.IH [OF rest False] False show ?thesis by simp
  qed
qed

lemma kernels_keep_kernel:
  "(gather t d c = Returns v c' \<longrightarrow> kernel c' = kernel c) \<and>
   (scatter t d c = Returns v c' \<longrightarrow> kernel c' = kernel c)"
proof (intro conjI impI)
  assume "gather t d c = Returns v c'"
  from gather_frame [OF this]
  have e: "c' = c\<lparr>dense := dense c', timer := timer c', time_seconds := time_seconds c'\<rparr>"
    by simp
  show "kernel c' = kernel c" by (subst e) simp
next
  assume "scatter t d c = Returns v c'"
  from scatter_frame [OF this]
  have e: "c' = c\<lparr>sparse := sparse c', timer := timer c', time_seconds := time_seconds c'\<rparr>"
    by simp
  show "kernel c' = kernel c" by (subst e) simp
qed

lemma run_keeps_kernel:
  assumes "run t d c = Returns r c'"
  shows "kernel c' = kernel c"
proof -
  consider (g) v where "gather t d c = Returns v c'"
    | (s) v where "scatter t d c = Returns v c'"
    | (n) "c' = c"
    using assms by (auto simp: run_def split: if_splits outcome.splits)
  then show ?thesis
  proof cases
    case g
    with kernels_keep_kernel [of t d c v c'] show ?thesis by simp
  next
    case s
    with kernels_keep_kernel [of t d c v c'] show ?thesis by simp
  next
    case n
    then show ?thesis by simp
  qed
qed

subsection \<open>Gather on sized and on constructed contexts\<close>

text \<open>
  C1, amended. On every context that satisfies the sizing invariant, has a non-empty
  pattern and is configured with the kernel \<^verbatim>\<open>gather\<close>, a call of \<^verbatim>\<open>gather\<close> (directly
  or through \<^verbatim>\<open>run\<close>) returns and sets \<open>dense[i]\<close> to \<open>sparse[pattern[i]]\<close> at every
  position of the pattern. With the pattern \<open>[0,1,2,3]\<close> and a sparse buffer that starts
  with \<open>s0, s1, s2, s3\<close> the dense buffer becomes exactly \<open>[s0, s1, s2, s3]\<close>. Every
  context that the constructor returns for a kernel name that is \<^verbatim>\<open>gather\<close> up to case
  and a pattern whose largest index is below \<open>2\<^sup>6\<^sup>4 - 1\<close> is such a context.
\<close>

theorem gather_sets_dense:
  "(sized s \<and> pattern s \<noteq> [] \<and> kernel s = ''gather'' \<longrightarrow>
      (\<exists>s'. gather timed d s = Returns () s' \<and> run timed d s = Returns 0 s' \<and>
         length (dense s') = length (pattern s) \<and>
         (\<forall>i<length (pattern s). dense s' ! i = sparse s ! unat (pattern s ! i)))) \<and>
   (pattern s = [0, 1, 2, 3] \<and> length (dense s) = 4 \<and> sparse s = s0 # s1 # s2 # s3 # rest \<longrightarrow>
      (\<exists>s'. gather timed d s = Returns () s' \<and> dense s' = [s0, s1, s2, s3])) \<and>
   (Configuration alloc rnd k p n v = Returns u c \<and> Max (unat ` set p) < 2 ^ 64 - 1 \<and>
    ci_equal k ''gather'' \<longrightarrow>
      (\<exists>c'. gather timed d c = Returns () c' \<and> run timed d c = Returns 0 c' \<and>
         length (dense c') = length p \<and>
         (\<forall>i<length p. dense c' ! i = sparse c ! unat (p ! i))))"
proof (intro conjI)
  note l = gather_sized_or_listed [of s timed d s0 s1 s2 s3 rest]
  from l show "sized s \<and> pattern s \<noteq> [] \<and> kernel s = ''gather'' \<longrightarrow>
      (\<exists>s'. gather timed d s = Returns () s' \<and> run timed d s = Returns 0 s' \<and>
         length (dense s') = length (pattern s) \<and>
         (\<forall>i<length (pattern s). dense s' ! i = sparse s ! unat (pattern s ! i)))"
    by (rule conjunct1)
  from l show "pattern s = [0, 1, 2, 3] \<and> length (dense s) = 4 \<and>
      sparse s = s0 # s1 # s2 # s3 # rest \<longrightarrow>
      (\<exists>s'. gather timed d s = Returns () s' \<and> dense s' = [s0, s1, s2, s3])"
    by (rule conjunct2)
  show "Configuration alloc rnd k p n v = Returns u c \<and> Max (unat ` set p) < 2 ^ 64 - 1 \<and>
    ci_equal k ''gather'' \<longrightarrow>
      (\<exists>c'. gather timed d c = Returns () c' \<and> run timed d c = Returns 0 c' \<and>
         length (dense c') = length p \<and>
         (\<forall>i<length p. dense c' ! i = sparse c ! unat (p ! i)))"
  proof
    assume a: "Configuration alloc rnd k p n v = Returns u c \<and>
      Max (unat ` set p) < 2 ^ 64 - 1 \<and> ci_equal k ''gather''"
    then have co: "Configuration alloc rnd k p n v = Returns u c"
      and mx: "Max (unat ` set p) < 2 ^ 64 - 1" and ci: "ci_equal k ''gather''"
      by simp_all
    from Configuration_sized [OF co mx] have sz: "sized c" and pc: "pattern c = p"
      and ne: "pattern c \<noteq> []" by simp_all
    from Configuration_kernel [OF co] ci have k: "kernel c = ''gather''"
      by (simp add: ci_equal_gather)
    from gather_sized_or_listed [of c timed d, THEN conjunct1] sz ne k
    show "\<exists>c'. gather timed d c = Returns () c' \<and> run timed d c = Returns 0 c' \<and>
         length (dense c') = length p \<and>
         (\<forall>i<length p. dense c' ! i = sparse c ! unat (p ! i))"
      by (simp add: pc)
  qed
qed

theorem gather_sets_dense_witness:
  "sized \<lparr>kernel = ''gather'', pattern = [2, 0], sparse = [dzero, DNaN, DInf True],
       dense = [dzero, dzero], nruns = 10, verbosity = 3, timer = timer_init,
       time_seconds = dzero\<rparr> \<and>
   (\<exists>s'. gather True (DFinite False 1 0)
       \<lparr>kernel = ''gather'', pattern = [2, 0], sparse = [dzero, DNaN, DInf True],
        dense = [dzero, dzero], nruns = 10, verbosity = 3, timer = timer_init,
        time_seconds = dzero\<rparr> = Returns () s' \<and>
      dense s' ! 0 = DInf True \<and> dense s' ! 1 = dzero) \<and>
   (\<exists>s'. gather False dzero
       \<lparr>kernel = ''gather'', pattern = [0, 1, 2, 3],
        sparse = [DNaN, DInf True, DInf False, dzero, DNaN],
        dense = [dzero, dzero, dzero, dzero], nruns = 10, verbosity = 3, timer = timer_init,
        time_seconds = dzero\<rparr> = Returns () s' \<and>
      dense s' = [DNaN, DInf True, DInf False, dzero]) \<and>
   (\<exists>c c'. Configuration grant_all rand_count ''Gather'' [2, 0] 10 3 = Returns () c \<and>
      gather True (DFinite False 1 0) c = Returns () c' \<and>
      run True (DFinite False 1 0) c = Returns 0 c' \<and>
      dense c' ! 0 = sparse c ! 2 \<and> dense c' ! 1 = sparse c ! 0)"
proof -
  let ?w = "\<lparr>kernel = ''gather'', pattern = [2, 0], sparse = [dzero, DNaN, DInf True],
       dense = [dzero, dzero], nruns = 10, verbosity = 3, timer = timer_init,
       time_seconds = dzero\<rparr>"
  let ?x = "\<lparr>kernel = ''gather'', pattern = [0, 1, 2, 3],
        sparse = [DNaN, DInf True, DInf False, dzero, DNaN],
        dense = [dzero, dzero, dzero, dzero], nruns = 10, verbosity = 3, timer = timer_init,
        time_seconds = dzero\<rparr>"
  let ?d = "DFinite False 1 0"
  have sz: "sized ?w" by (simp add: sized_def)
  from gather_sets_dense [of ?w True ?d, THEN conjunct1] sz
  have A: "\<exists>s'. gather True ?d ?w = Returns () s' \<and>
      dense s' ! 0 = DInf True \<and> dense s' ! 1 = dzero"
    by auto
  from gather_sets_dense [of ?x False dzero DNaN "DInf True" "DInf False" dzero "[DNaN]",
      THEN conjunct2, THEN conjunct1]
  have B: "\<exists>s'. gather False dzero ?x = Returns () s' \<and>
      dense s' = [DNaN, DInf True, DInf False, dzero]"
    by simp
  from Configuration_granted [of "[2, 0]" rand_count "''Gather''" 10 3] obtain c where
    co: "Configuration grant_all rand_count ''Gather'' [2, 0] 10 3 = Returns () c" by auto
  have mx: "Max (unat ` set [2, 0 :: size_t]) < 2 ^ 64 - 1" by simp
  have ci: "ci_equal ''Gather'' ''gather''"
    by (simp add: ci_equal_def same_letter_def is_upper_def)
  from gather_sets_dense [where alloc = grant_all and rnd = rand_count and k = "''Gather''"
      and p = "[2, 0]" and n = 10 and v = 3 and u = "()" and c = c and timed = True
      and d = "?d", THEN conjunct2, THEN conjunct2, THEN mp, OF conjI [OF co conjI [OF mx ci]]]
  obtain c' where
    g: "gather True ?d c = Returns () c'" and r: "run True ?d c = Returns 0 c'" and
    v: "\<forall>i<length [2, 0 :: size_t]. dense c' ! i = sparse c ! unat ([2, 0 :: size_t] ! i)"
    by (elim exE conjE)
  from v have "dense c' ! 0 = sparse c ! 2" "dense c' ! 1 = sparse c ! 0" by simp_all
  with co g r have C: "\<exists>c c'. Configuration grant_all rand_count ''Gather'' [2, 0] 10 3 =
      Returns () c \<and>
      gather True ?d c = Returns () c' \<and> run True ?d c = Returns 0 c' \<and>
      dense c' ! 0 = sparse c ! 2 \<and> dense c' ! 1 = sparse c ! 0"
    by blast
  from sz A B C show ?thesis by blast
qed

text \<open>
  The claim as stated fails on the context that the constructor returns for the kernel
  \<^verbatim>\<open>gather\<close> and the non-empty pattern that holds the index \<open>2\<^sup>6\<^sup>4 - 1\<close>: its sparse
  buffer is empty, and \<^verbatim>\<open>gather\<close>, called directly or through \<^verbatim>\<open>run\<close>, reads outside it.
\<close>

theorem gather_sets_dense_counterexample:
  "Configuration grant_all rand_count ''gather'' [18446744073709551615] 10 3 =
     Returns ()
       \<lparr>kernel = ''gather'', pattern = [18446744073709551615], sparse = [],
        dense = [double_of_nat 1], nruns = 10, verbosity = 3, timer = timer_init,
        time_seconds = dzero\<rparr> \<and>
   gather False dzero
       \<lparr>kernel = ''gather'', pattern = [18446744073709551615], sparse = [],
        dense = [double_of_nat 1], nruns = 10, verbosity = 3, timer = timer_init,
        time_seconds = dzero\<rparr> =
     Aborts Undefined_Access
       \<lparr>kernel = ''gather'', pattern = [18446744073709551615], sparse = [],
        dense = [double_of_nat 1], nruns = 10, verbosity = 3, timer = timer_init,
        time_seconds = dzero\<rparr> \<and>
   run False dzero
       \<lparr>kernel = ''gather'', pattern = [18446744073709551615], sparse = [],
        dense = [double_of_nat 1], nruns = 10, verbosity = 3, timer = timer_init,
        time_seconds = dzero\<rparr> =
     Aborts Undefined_Access
       \<lparr>kernel = ''gather'', pattern = [18446744073709551615], sparse = [],
        dense = [double_of_nat 1], nruns = 10, verbosity = 3, timer = timer_init,
        time_seconds = dzero\<rparr>"
proof -
  let ?x = "\<lparr>kernel = ''gather'', pattern = [18446744073709551615], sparse = [],
        dense = [double_of_nat 1], nruns = 10, verbosity = 3, timer = timer_init,
        time_seconds = dzero\<rparr>"
  have lw: "map tolower ''gather'' = ''gather''" by (simp add: tolower_def)
  have 1: "Configuration grant_all rand_count ''gather'' [18446744073709551615] 10 3 =
      Returns () ?x"
    unfolding Configuration_wraps lw by (simp add: rand_count_def)
  have 2: "gather False dzero ?x = Aborts Undefined_Access ?x"
    using gather_outside_empty_sparse [of ?x False dzero] by (simp add: start_timing_def)
  then have 3: "run False dzero ?x = Aborts Undefined_Access ?x" by (simp add: run_def)
  from 1 2 3 show ?thesis by (intro conjI)
qed

subsection \<open>Scatter and the round trip on sized and on constructed contexts\<close>

text \<open>
  C2, amended. On every context that satisfies the sizing invariant and has a non-empty
  pattern, the Serial \<^verbatim>\<open>scatter\<close> returns one result, in which every sparse index that
  occurs in the pattern holds the dense value of the largest position with that index,
  and every other sparse slot holds what it held before. Every context that the
  constructor returns for a pattern whose largest index is below \<open>2\<^sup>6\<^sup>4 - 1\<close> is such a
  context.
\<close>

theorem scatter_last_index_wins:
  "(sized s \<and> pattern s \<noteq> [] \<longrightarrow>
      (\<exists>s'. scatter timed d s = Returns () s' \<and>
         length (sparse s') = length (sparse s) \<and>
         (\<forall>j\<in>unat ` set (pattern s).
             \<exists>i. last_position (pattern s) j i \<and> sparse s' ! j = dense s ! i) \<and>
         (\<forall>j<length (sparse s). j \<notin> unat ` set (pattern s) \<longrightarrow>
             sparse s' ! j = sparse s ! j))) \<and>
   (Configuration alloc rnd k p n v = Returns u c \<and> Max (unat ` set p) < 2 ^ 64 - 1 \<longrightarrow>
      (\<exists>c'. scatter timed d c = Returns () c' \<and>
         length (sparse c') = length (sparse c) \<and>
         (\<forall>j\<in>unat ` set p. \<exists>i. last_position p j i \<and> sparse c' ! j = dense c ! i) \<and>
         (\<forall>j<length (sparse c). j \<notin> unat ` set p \<longrightarrow> sparse c' ! j = sparse c ! j)))"
proof (intro conjI impI)
  assume "sized s \<and> pattern s \<noteq> []"
  then have "sized s" "pattern s \<noteq> []" by simp_all
  then show "\<exists>s'. scatter timed d s = Returns () s' \<and>
         length (sparse s') = length (sparse s) \<and>
         (\<forall>j\<in>unat ` set (pattern s).
             \<exists>i. last_position (pattern s) j i \<and> sparse s' ! j = dense s ! i) \<and>
         (\<forall>j<length (sparse s). j \<notin> unat ` set (pattern s) \<longrightarrow>
             sparse s' ! j = sparse s ! j)"
    by (rule scatter_sized_last_wins)
next
  assume "Configuration alloc rnd k p n v = Returns u c \<and> Max (unat ` set p) < 2 ^ 64 - 1"
  then have co: "Configuration alloc rnd k p n v = Returns u c"
    and mx: "Max (unat ` set p) < 2 ^ 64 - 1" by simp_all
  from Configuration_sized [OF co mx] have sz: "sized c" and pc: "pattern c = p"
    and ne: "pattern c \<noteq> []" by simp_all
  from scatter_sized_last_wins [OF sz ne, of timed d]
  show "\<exists>c'. scatter timed d c = Returns () c' \<and>
         length (sparse c') = length (sparse c) \<and>
         (\<forall>j\<in>unat ` set p. \<exists>i. last_position p j i \<and> sparse c' ! j = dense c ! i) \<and>
         (\<forall>j<length (sparse c). j \<notin> unat ` set p \<longrightarrow> sparse c' ! j = sparse c ! j)"
    unfolding pc .
qed

theorem scatter_last_index_wins_witness:
  "sized \<lparr>kernel = ''scatter'', pattern = [2, 2, 0], sparse = [dzero, DNaN, dzero],
       dense = [DNaN, DInf True, DInf False], nruns = 10, verbosity = 3, timer = timer_init,
       time_seconds = dzero\<rparr> \<and>
   (\<exists>s'. scatter False dzero
       \<lparr>kernel = ''scatter'', pattern = [2, 2, 0], sparse = [dzero, DNaN, dzero],
        dense = [DNaN, DInf True, DInf False], nruns = 10, verbosity = 3, timer = timer_init,
        time_seconds = dzero\<rparr> = Returns () s' \<and>
      sparse s' = [DInf False, DNaN, DInf True]) \<and>
   (\<exists>c c'. Configuration grant_all rand_count ''scatter'' [2, 2, 0] 10 3 = Returns () c \<and>
      scatter True dzero c = Returns () c' \<and>
      sparse c' ! 2 = dense c ! 1 \<and> sparse c' ! 0 = dense c ! 2 \<and>
      sparse c' ! 1 = sparse c ! 1)"
proof -
  let ?w = "\<lparr>kernel = ''scatter'', pattern = [2, 2, 0], sparse = [dzero, DNaN, dzero],
       dense = [DNaN, DInf True, DInf False], nruns = 10, verbosity = 3, timer = timer_init,
       time_seconds = dzero\<rparr>"
  have sz: "sized ?w" by (simp add: sized_def)
  have ne: "pattern ?w \<noteq> []" by simp
  have l2: "i = 1" if "last_position [2, 2, 0] 2 i" for i
    using that by (auto simp: last_position_def less_Suc_eq nth_Cons' split: if_splits)
  have l0: "i = 2" if "last_position [2, 2, 0] 0 i" for i
    using that by (auto simp: last_position_def less_Suc_eq nth_Cons' split: if_splits)
  from scatter_last_index_wins [of ?w False dzero, THEN conjunct1, THEN mp, OF conjI [OF sz ne]]
  obtain s' where
    run: "scatter False dzero ?w = Returns () s'" and
    len: "length (sparse s') = length (sparse ?w)" and
    hit: "\<forall>j\<in>unat ` set (pattern ?w).
        \<exists>i. last_position (pattern ?w) j i \<and> sparse s' ! j = dense ?w ! i" and
    miss: "\<forall>j<length (sparse ?w). j \<notin> unat ` set (pattern ?w) \<longrightarrow>
        sparse s' ! j = sparse ?w ! j"
    by (elim exE conjE)
  have "(2::nat) \<in> unat ` set (pattern ?w)" by simp
  with hit obtain i where "last_position (pattern ?w) 2 i" "sparse s' ! 2 = dense ?w ! i"
    by blast
  with l2 [of i] have s2: "sparse s' ! 2 = DInf True" by simp
  have "(0::nat) \<in> unat ` set (pattern ?w)" by simp
  with hit obtain k where "last_position (pattern ?w) 0 k" "sparse s' ! 0 = dense ?w ! k"
    by blast
  with l0 [of k] have s0: "sparse s' ! 0 = DInf False" by simp
  have "(1::nat) < length (sparse ?w)" "(1::nat) \<notin> unat ` set (pattern ?w)" by simp_all
  with miss have "sparse s' ! 1 = sparse ?w ! 1" by blast
  then have s1: "sparse s' ! 1 = DNaN" by simp
  from len have "length (sparse s') = 3" by simp
  with s0 s1 s2 have "sparse s' = [DInf False, DNaN, DInf True]"
    by (cases "sparse s'"; cases "tl (sparse s')"; cases "tl (tl (sparse s'))") auto
  with run have A: "\<exists>s'. scatter False dzero ?w = Returns () s' \<and>
      sparse s' = [DInf False, DNaN, DInf True]" by blast
  from Configuration_granted [of "[2, 2, 0]" rand_count "''scatter''" 10 3] obtain c where
    co: "Configuration grant_all rand_count ''scatter'' [2, 2, 0] 10 3 = Returns () c" by auto
  have mx: "Max (unat ` set [2, 2, 0 :: size_t]) < 2 ^ 64 - 1" by simp
  from Configuration_sized [OF co mx] have "sized c" "pattern c = [2, 2, 0]" by simp_all
  then have lc: "length (sparse c) = 3" by (simp add: sized_def)
  from scatter_last_index_wins [where alloc = grant_all and rnd = rand_count
      and k = "''scatter''" and p = "[2, 2, 0]" and n = 10 and v = 3 and u = "()" and c = c
      and timed = True and d = dzero, THEN conjunct2, THEN mp, OF conjI [OF co mx]]
  obtain c' where
    crun: "scatter True dzero c = Returns () c'" and
    chit: "\<forall>j\<in>unat ` set [2, 2, 0 :: size_t].
        \<exists>i. last_position [2, 2, 0] j i \<and> sparse c' ! j = dense c ! i" and
    cmiss: "\<forall>j<length (sparse c). j \<notin> unat ` set [2, 2, 0 :: size_t] \<longrightarrow>
        sparse c' ! j = sparse c ! j"
    by (elim exE conjE)
  have "(2::nat) \<in> unat ` set [2, 2, 0 :: size_t]" by simp
  with chit obtain i' where "last_position [2, 2, 0] 2 i'" "sparse c' ! 2 = dense c ! i'"
    by blast
  with l2 [of i'] have c2: "sparse c' ! 2 = dense c ! 1" by simp
  have "(0::nat) \<in> unat ` set [2, 2, 0 :: size_t]" by simp
  with chit obtain k' where "last_position [2, 2, 0] 0 k'" "sparse c' ! 0 = dense c ! k'"
    by blast
  with l0 [of k'] have c0: "sparse c' ! 0 = dense c ! 2" by simp
  have "(1::nat) \<notin> unat ` set [2, 2, 0 :: size_t]" by simp
  with cmiss lc have c1: "sparse c' ! 1 = sparse c ! 1" by simp
  from co crun c0 c1 c2 have B: "\<exists>c c'. Configuration grant_all rand_count ''scatter''
      [2, 2, 0] 10 3 = Returns () c \<and>
      scatter True dzero c = Returns () c' \<and>
      sparse c' ! 2 = dense c ! 1 \<and> sparse c' ! 0 = dense c ! 2 \<and>
      sparse c' ! 1 = sparse c ! 1"
    by blast
  from sz A B show ?thesis by blast
qed

text \<open>
  The claim as stated fails on the context that the constructor returns for the pattern
  that holds the index \<open>2\<^sup>6\<^sup>4 - 1\<close>: its sparse buffer is empty, and \<^verbatim>\<open>scatter\<close> writes
  outside it.
\<close>

theorem scatter_last_index_wins_counterexample:
  "Configuration grant_all rand_count ''scatter'' [18446744073709551615] 10 3 =
     Returns ()
       \<lparr>kernel = ''scatter'', pattern = [18446744073709551615], sparse = [],
        dense = [double_of_nat 1], nruns = 10, verbosity = 3, timer = timer_init,
        time_seconds = dzero\<rparr> \<and>
   scatter False dzero
       \<lparr>kernel = ''scatter'', pattern = [18446744073709551615], sparse = [],
        dense = [double_of_nat 1], nruns = 10, verbosity = 3, timer = timer_init,
        time_seconds = dzero\<rparr> =
     Aborts Undefined_Access
       \<lparr>kernel = ''scatter'', pattern = [18446744073709551615], sparse = [],
        dense = [double_of_nat 1], nruns = 10, verbosity = 3, timer = timer_init,
        time_seconds = dzero\<rparr>"
proof -
  let ?x = "\<lparr>kernel = ''scatter'', pattern = [18446744073709551615], sparse = [],
        dense = [double_of_nat 1], nruns = 10, verbosity = 3, timer = timer_init,
        time_seconds = dzero\<rparr>"
  have lw: "map tolower ''scatter'' = ''scatter''" by (simp add: tolower_def)
  have 1: "Configuration grant_all rand_count ''scatter'' [18446744073709551615] 10 3 =
      Returns () ?x"
    unfolding Configuration_wraps lw by (simp add: rand_count_def)
  have 2: "scatter False dzero ?x = Aborts Undefined_Access ?x"
    using scatter_outside_empty_sparse [of ?x False dzero] by (simp add: start_timing_def)
  from 1 2 show ?thesis by (intro conjI)
qed

text \<open>
  C3, amended. On every context that satisfies the sizing invariant and has a non-empty
  pattern without a duplicate index, \<^verbatim>\<open>gather\<close> followed by \<^verbatim>\<open>scatter\<close> on the context
  that \<^verbatim>\<open>gather\<close> left returns, and the sparse buffer is then the one before
  \<^verbatim>\<open>gather\<close>: the slots whose index occurs in the pattern hold their old values again,
  and no other slot has changed. Every context that the constructor returns for a
  pattern whose largest index is below \<open>2\<^sup>6\<^sup>4 - 1\<close> is such a context.
\<close>

theorem gather_then_scatter_restores:
  "(sized s \<and> pattern s \<noteq> [] \<and> distinct (pattern s) \<longrightarrow>
      (\<exists>s1 s2. gather t1 d1 s = Returns () s1 \<and> scatter t2 d2 s1 = Returns () s2 \<and>
         length (sparse s2) = length (sparse s) \<and>
         (\<forall>j<length (sparse s).
            (j \<in> unat ` set (pattern s) \<longrightarrow> sparse s2 ! j = sparse s ! j) \<and>
            (j \<notin> unat ` set (pattern s) \<longrightarrow> sparse s2 ! j = sparse s ! j)))) \<and>
   (Configuration alloc rnd k p n v = Returns u c \<and> Max (unat ` set p) < 2 ^ 64 - 1 \<and>
    distinct p \<longrightarrow>
      (\<exists>c1 c2. gather t1 d1 c = Returns () c1 \<and> scatter t2 d2 c1 = Returns () c2 \<and>
         length (sparse c2) = length (sparse c) \<and>
         (\<forall>j<length (sparse c).
            (j \<in> unat ` set p \<longrightarrow> sparse c2 ! j = sparse c ! j) \<and>
            (j \<notin> unat ` set p \<longrightarrow> sparse c2 ! j = sparse c ! j))))"
proof (intro conjI impI)
  assume "sized s \<and> pattern s \<noteq> [] \<and> distinct (pattern s)"
  then have "sized s" "pattern s \<noteq> []" "distinct (pattern s)" by simp_all
  then show "\<exists>s1 s2. gather t1 d1 s = Returns () s1 \<and> scatter t2 d2 s1 = Returns () s2 \<and>
         length (sparse s2) = length (sparse s) \<and>
         (\<forall>j<length (sparse s).
            (j \<in> unat ` set (pattern s) \<longrightarrow> sparse s2 ! j = sparse s ! j) \<and>
            (j \<notin> unat ` set (pattern s) \<longrightarrow> sparse s2 ! j = sparse s ! j))"
    by (rule gather_scatter_sized)
next
  assume "Configuration alloc rnd k p n v = Returns u c \<and> Max (unat ` set p) < 2 ^ 64 - 1 \<and>
    distinct p"
  then have co: "Configuration alloc rnd k p n v = Returns u c"
    and mx: "Max (unat ` set p) < 2 ^ 64 - 1" and di: "distinct p" by simp_all
  from Configuration_sized [OF co mx] have sz: "sized c" and pc: "pattern c = p"
    and ne: "pattern c \<noteq> []" by simp_all
  from di pc have dc: "distinct (pattern c)" by simp
  from gather_scatter_sized [OF sz ne dc, of t1 d1 t2 d2]
  show "\<exists>c1 c2. gather t1 d1 c = Returns () c1 \<and> scatter t2 d2 c1 = Returns () c2 \<and>
         length (sparse c2) = length (sparse c) \<and>
         (\<forall>j<length (sparse c).
            (j \<in> unat ` set p \<longrightarrow> sparse c2 ! j = sparse c ! j) \<and>
            (j \<notin> unat ` set p \<longrightarrow> sparse c2 ! j = sparse c ! j))"
    unfolding pc .
qed

theorem gather_then_scatter_restores_witness:
  "sized \<lparr>kernel = ''gather'', pattern = [2, 0], sparse = [dzero, DNaN, DInf True],
       dense = [DNaN, DNaN], nruns = 10, verbosity = 3, timer = timer_init,
       time_seconds = dzero\<rparr> \<and>
   distinct [2, 0 :: size_t] \<and>
   (\<exists>s1 s2. gather True dzero
       \<lparr>kernel = ''gather'', pattern = [2, 0], sparse = [dzero, DNaN, DInf True],
        dense = [DNaN, DNaN], nruns = 10, verbosity = 3, timer = timer_init,
        time_seconds = dzero\<rparr> = Returns () s1 \<and>
      scatter False dzero s1 = Returns () s2 \<and>
      sparse s2 ! 0 = dzero \<and> sparse s2 ! 1 = DNaN \<and> sparse s2 ! 2 = DInf True) \<and>
   (\<exists>c c1 c2. Configuration grant_all rand_count ''gather'' [2, 0] 10 3 = Returns () c \<and>
      gather True dzero c = Returns () c1 \<and> scatter False dzero c1 = Returns () c2 \<and>
      sparse c2 ! 0 = sparse c ! 0 \<and> sparse c2 ! 1 = sparse c ! 1 \<and>
      sparse c2 ! 2 = sparse c ! 2)"
proof -
  let ?w = "\<lparr>kernel = ''gather'', pattern = [2, 0], sparse = [dzero, DNaN, DInf True],
       dense = [DNaN, DNaN], nruns = 10, verbosity = 3, timer = timer_init,
       time_seconds = dzero\<rparr>"
  have sz: "sized ?w" by (simp add: sized_def)
  have ne: "pattern ?w \<noteq> []" and di: "distinct (pattern ?w)" by simp_all
  from gather_then_scatter_restores [of ?w True dzero False dzero, THEN conjunct1, THEN mp,
      OF conjI [OF sz conjI [OF ne di]]]
  obtain s1 s2 where
    "gather True dzero ?w = Returns () s1" "scatter False dzero s1 = Returns () s2"
    "\<forall>j<length (sparse ?w).
       (j \<in> unat ` set (pattern ?w) \<longrightarrow> sparse s2 ! j = sparse ?w ! j) \<and>
       (j \<notin> unat ` set (pattern ?w) \<longrightarrow> sparse s2 ! j = sparse ?w ! j)"
    by (elim exE conjE)
  moreover from this(3) have "\<forall>j<length (sparse ?w). sparse s2 ! j = sparse ?w ! j"
    by blast
  then have "sparse s2 ! 0 = dzero \<and> sparse s2 ! 1 = DNaN \<and> sparse s2 ! 2 = DInf True"
    by simp
  ultimately have A: "\<exists>s1 s2. gather True dzero ?w = Returns () s1 \<and>
      scatter False dzero s1 = Returns () s2 \<and>
      sparse s2 ! 0 = dzero \<and> sparse s2 ! 1 = DNaN \<and> sparse s2 ! 2 = DInf True"
    by blast
  from Configuration_granted [of "[2, 0]" rand_count "''gather''" 10 3] obtain c where
    co: "Configuration grant_all rand_count ''gather'' [2, 0] 10 3 = Returns () c" by auto
  have mx: "Max (unat ` set [2, 0 :: size_t]) < 2 ^ 64 - 1" by simp
  have dp: "distinct [2, 0 :: size_t]" by simp
  from Configuration_sized [OF co mx] have "sized c" "pattern c = [2, 0]" by simp_all
  then have lc: "length (sparse c) = 3" by (simp add: sized_def)
  from gather_then_scatter_restores [where alloc = grant_all and rnd = rand_count
      and k = "''gather''" and p = "[2, 0]" and n = 10 and v = 3 and u = "()" and c = c
      and ?t1.0 = True and ?d1.0 = dzero and ?t2.0 = False and ?d2.0 = dzero,
      THEN conjunct2, THEN mp, OF conjI [OF co conjI [OF mx dp]]]
  obtain c1 c2 where
    g: "gather True dzero c = Returns () c1" and s: "scatter False dzero c1 = Returns () c2" and
    r: "\<forall>j<length (sparse c).
       (j \<in> unat ` set [2, 0 :: size_t] \<longrightarrow> sparse c2 ! j = sparse c ! j) \<and>
       (j \<notin> unat ` set [2, 0 :: size_t] \<longrightarrow> sparse c2 ! j = sparse c ! j)"
    by (elim exE conjE)
  from r have "\<forall>j<length (sparse c). sparse c2 ! j = sparse c ! j" by blast
  with lc have "sparse c2 ! 0 = sparse c ! 0" "sparse c2 ! 1 = sparse c ! 1"
    "sparse c2 ! 2 = sparse c ! 2" by simp_all
  with co g s have B: "\<exists>c c1 c2. Configuration grant_all rand_count ''gather'' [2, 0] 10 3 =
      Returns () c \<and>
      gather True dzero c = Returns () c1 \<and> scatter False dzero c1 = Returns () c2 \<and>
      sparse c2 ! 0 = sparse c ! 0 \<and> sparse c2 ! 1 = sparse c ! 1 \<and>
      sparse c2 ! 2 = sparse c ! 2"
    by blast
  from sz dp A B show ?thesis by blast
qed

text \<open>
  The claim as stated fails for the non-empty pattern without duplicates that holds the
  index \<open>2\<^sup>6\<^sup>4 - 1\<close>: on the context that the constructor returns for it \<^verbatim>\<open>gather\<close>
  reads outside the empty sparse buffer, and there is no context left for \<^verbatim>\<open>scatter\<close>
  to restore.
\<close>

theorem gather_then_scatter_restores_counterexample:
  "distinct [18446744073709551615 :: size_t] \<and>
   Configuration grant_all rand_count ''gather'' [18446744073709551615] 10 3 =
     Returns ()
       \<lparr>kernel = ''gather'', pattern = [18446744073709551615], sparse = [],
        dense = [double_of_nat 1], nruns = 10, verbosity = 3, timer = timer_init,
        time_seconds = dzero\<rparr> \<and>
   gather True (DFinite False 1 0)
       \<lparr>kernel = ''gather'', pattern = [18446744073709551615], sparse = [],
        dense = [double_of_nat 1], nruns = 10, verbosity = 3, timer = timer_init,
        time_seconds = dzero\<rparr> =
     Aborts Undefined_Access
       \<lparr>kernel = ''gather'', pattern = [18446744073709551615], sparse = [],
        dense = [double_of_nat 1], nruns = 10, verbosity = 3,
        timer = \<lparr>running = True, bracket = dzero\<rparr>, time_seconds = dzero\<rparr>"
proof -
  let ?x = "\<lparr>kernel = ''gather'', pattern = [18446744073709551615], sparse = [],
        dense = [double_of_nat 1], nruns = 10, verbosity = 3, timer = timer_init,
        time_seconds = dzero\<rparr>"
  have lw: "map tolower ''gather'' = ''gather''" by (simp add: tolower_def)
  have 0: "distinct [18446744073709551615 :: size_t]" by simp
  have 1: "Configuration grant_all rand_count ''gather'' [18446744073709551615] 10 3 =
      Returns () ?x"
    unfolding Configuration_wraps lw by (simp add: rand_count_def)
  have 2: "gather True (DFinite False 1 0) ?x =
     Aborts Undefined_Access
       \<lparr>kernel = ''gather'', pattern = [18446744073709551615], sparse = [],
        dense = [double_of_nat 1], nruns = 10, verbosity = 3,
        timer = \<lparr>running = True, bracket = dzero\<rparr>, time_seconds = dzero\<rparr>"
    using gather_outside_empty_sparse [of ?x True "DFinite False 1 0"]
    by (simp add: start_timing_def timer_start_def timer_init_def)
  from 0 1 2 show ?thesis by (intro conjI)
qed

subsection \<open>Elapsed seconds of timed calls, and dispatch on the kernel name\<close>

text \<open>
  C9. On every context, a timed \<^verbatim>\<open>gather\<close> or \<^verbatim>\<open>scatter\<close> of the Serial variant that
  returns leaves the elapsed seconds equal to the duration \<open>d\<close> of its own timer bracket,
  whatever they were before; a non-empty sequence of timed calls that returns leaves
  the duration of its last call.
\<close>

theorem timed_call_overwrites_elapsed:
  "(gather True d s = Returns u s' \<longrightarrow> time_seconds s' = d) \<and>
   (scatter True d s = Returns u s' \<longrightarrow> time_seconds s' = d) \<and>
   (timed_calls cs s = Returns u s' \<and> cs \<noteq> [] \<longrightarrow> time_seconds s' = snd (last cs))"
proof (intro conjI impI)
  assume "gather True d s = Returns u s'"
  then show "time_seconds s' = d" by (rule timed_gather_seconds)
next
  assume "scatter True d s = Returns u s'"
  then show "time_seconds s' = d" by (rule timed_scatter_seconds)
next
  assume "timed_calls cs s = Returns u s' \<and> cs \<noteq> []"
  then have "timed_calls cs s = Returns u s'" "cs \<noteq> []" by simp_all
  then show "time_seconds s' = snd (last cs)" by (rule timed_calls_seconds)
qed

theorem timed_call_overwrites_elapsed_witness:
  "time_seconds timed_example = DFinite False 7 0 \<and>
   (\<exists>s'. gather True (DFinite False 3 0) timed_example = Returns () s' \<and>
      time_seconds s' = DFinite False 3 0) \<and>
   (\<exists>s'. scatter True (DFinite False 5 0) timed_example = Returns () s' \<and>
      time_seconds s' = DFinite False 5 0) \<and>
   (\<exists>s'. timed_calls [(True, DFinite False 3 0), (False, DFinite False 5 0),
                        (True, DFinite False 1 (- 4))] timed_example = Returns () s' \<and>
      time_seconds s' = DFinite False 1 (- 4))"
proof -
  let ?cs = "[(True, DFinite False 3 0), (False, DFinite False 5 0),
              (True, DFinite False 1 (- 4))]"
  have sz: "sized timed_example" and ne: "pattern timed_example \<noteq> []"
    by (simp_all add: timed_example_def sized_def)
  have t: "time_seconds timed_example = DFinite False 7 0" by (simp add: timed_example_def)
  from gather_keeps_sized [OF sz ne, of True "DFinite False 3 0"] obtain g where
    g: "gather True (DFinite False 3 0) timed_example = Returns () g" by blast
  from scatter_keeps_sized [OF sz ne, of True "DFinite False 5 0"] obtain c where
    c: "scatter True (DFinite False 5 0) timed_example = Returns () c" by blast
  from timed_calls_last [OF sz ne, of ?cs] obtain q where
    q: "timed_calls ?cs timed_example = Returns () q" by blast
  from timed_call_overwrites_elapsed [of "DFinite False 3 0" timed_example "()" g] g
  have 1: "time_seconds g = DFinite False 3 0" by blast
  from timed_call_overwrites_elapsed [of "DFinite False 5 0" timed_example "()" c] c
  have 2: "time_seconds c = DFinite False 5 0" by blast
  have cn: "?cs \<noteq> []" by simp
  from timed_call_overwrites_elapsed [of _ timed_example "()" q ?cs] q cn
  have "time_seconds q = snd (last ?cs)" by blast
  then have 3: "time_seconds q = DFinite False 1 (- 4)" by simp
  from t g 1 c 2 q 3 show ?thesis by blast
qed

text \<open>
  C5. On every context whose kernel member is the lowered name \<open>k\<close>, timed before or
  not, \<^verbatim>\<open>run\<close> does what \<^verbatim>\<open>gather\<close> does and returns 0 if \<open>k\<close> is \<^verbatim>\<open>gather\<close> up to
  the case of its letters, does what \<^verbatim>\<open>scatter\<close> does and returns 0 if \<open>k\<close> is
  \<^verbatim>\<open>scatter\<close> up to case, and for every other \<open>k\<close> returns \<open>-1\<close> and leaves the whole
  context, the buffers and the elapsed seconds among it, as it is. The constructor
  stores the lowered name in the kernel member, and no \<^verbatim>\<open>gather\<close>, \<^verbatim>\<open>scatter\<close>,
  \<^verbatim>\<open>run\<close> or \<^verbatim>\<open>report\<close> that returns changes it.
\<close>

theorem run_dispatches_on_kernel:
  "(kernel s = map tolower k \<longrightarrow>
      (ci_equal k ''gather'' \<longrightarrow>
         run timed d s =
           (case gather timed d s of
              Aborts e s' \<Rightarrow> Aborts e s' | Returns _ s' \<Rightarrow> Returns 0 s')) \<and>
      (ci_equal k ''scatter'' \<longrightarrow>
         run timed d s =
           (case scatter timed d s of
              Aborts e s' \<Rightarrow> Aborts e s' | Returns _ s' \<Rightarrow> Returns 0 s')) \<and>
      (\<not> ci_equal k ''gather'' \<and> \<not> ci_equal k ''scatter'' \<longrightarrow>
         run timed d s = Returns (- 1) s)) \<and>
   (Configuration alloc rnd k p n v = Returns u c \<longrightarrow> kernel c = map tolower k) \<and>
   (gather t d' a = Returns x a' \<longrightarrow> kernel a' = kernel a) \<and>
   (scatter t d' a = Returns x a' \<longrightarrow> kernel a' = kernel a) \<and>
   (run t d' a = Returns r a' \<longrightarrow> kernel a' = kernel a) \<and>
   (report a = Returns f a' \<longrightarrow> kernel a' = kernel a)"
proof (intro conjI)
  show "kernel s = map tolower k \<longrightarrow>
      (ci_equal k ''gather'' \<longrightarrow>
         run timed d s =
           (case gather timed d s of
              Aborts e s' \<Rightarrow> Aborts e s' | Returns _ s' \<Rightarrow> Returns 0 s')) \<and>
      (ci_equal k ''scatter'' \<longrightarrow>
         run timed d s =
           (case scatter timed d s of
              Aborts e s' \<Rightarrow> Aborts e s' | Returns _ s' \<Rightarrow> Returns 0 s')) \<and>
      (\<not> ci_equal k ''gather'' \<and> \<not> ci_equal k ''scatter'' \<longrightarrow>
         run timed d s = Returns (- 1) s)"
  proof
    assume ks: "kernel s = map tolower k"
    show "(ci_equal k ''gather'' \<longrightarrow>
         run timed d s =
           (case gather timed d s of
              Aborts e s' \<Rightarrow> Aborts e s' | Returns _ s' \<Rightarrow> Returns 0 s')) \<and>
      (ci_equal k ''scatter'' \<longrightarrow>
         run timed d s =
           (case scatter timed d s of
              Aborts e s' \<Rightarrow> Aborts e s' | Returns _ s' \<Rightarrow> Returns 0 s')) \<and>
      (\<not> ci_equal k ''gather'' \<and> \<not> ci_equal k ''scatter'' \<longrightarrow>
         run timed d s = Returns (- 1) s)"
      unfolding ci_equal_gather ci_equal_scatter ks [symmetric]
      by (simp add: run_def)
  qed
  show "Configuration alloc rnd k p n v = Returns u c \<longrightarrow> kernel c = map tolower k"
    by (rule impI) (rule Configuration_kernel)
  from kernels_keep_kernel [of t d' a x a']
  show "gather t d' a = Returns x a' \<longrightarrow> kernel a' = kernel a" by (rule conjunct1)
  from kernels_keep_kernel [of t d' a x a']
  show "scatter t d' a = Returns x a' \<longrightarrow> kernel a' = kernel a" by (rule conjunct2)
  show "run t d' a = Returns r a' \<longrightarrow> kernel a' = kernel a"
    by (rule impI) (rule run_keeps_kernel)
  show "report a = Returns f a' \<longrightarrow> kernel a' = kernel a"
    by (auto simp: report_def)
qed

theorem run_dispatches_on_kernel_witness:
  "kernel timed_example = map tolower ''GaTHer'' \<and> ci_equal ''GaTHer'' ''gather'' \<and>
   run True dzero timed_example =
     (case gather True dzero timed_example of
        Aborts e s' \<Rightarrow> Aborts e s' | Returns _ s' \<Rightarrow> Returns 0 s') \<and>
   kernel (timed_example\<lparr>kernel := ''scatter''\<rparr>) = map tolower ''SCATTER'' \<and>
   ci_equal ''SCATTER'' ''scatter'' \<and>
   run True dzero (timed_example\<lparr>kernel := ''scatter''\<rparr>) =
     (case scatter True dzero (timed_example\<lparr>kernel := ''scatter''\<rparr>) of
        Aborts e s' \<Rightarrow> Aborts e s' | Returns _ s' \<Rightarrow> Returns 0 s') \<and>
   kernel (timed_example\<lparr>kernel := ''gather2''\<rparr>) = map tolower ''Gather2'' \<and>
   \<not> ci_equal ''Gather2'' ''gather'' \<and> \<not> ci_equal ''Gather2'' ''scatter'' \<and>
   run True dzero (timed_example\<lparr>kernel := ''gather2''\<rparr>) =
     Returns (- 1) (timed_example\<lparr>kernel := ''gather2''\<rparr>) \<and>
   time_seconds (timed_example\<lparr>kernel := ''gather2''\<rparr>) = DFinite False 7 0 \<and>
   (\<exists>c. Configuration grant_all rand_count ''GaTHer'' [1, 0] 10 3 = Returns () c \<and>
      kernel c = ''gather'') \<and>
   (\<exists>g. gather True dzero timed_example = Returns () g \<and> kernel g = ''gather'') \<and>
   (\<exists>g. scatter True dzero timed_example = Returns () g \<and> kernel g = ''gather'') \<and>
   (\<exists>g. run True dzero timed_example = Returns 0 g \<and> kernel g = ''gather'') \<and>
   (\<exists>f g. report timed_example = Returns f g \<and> kernel g = ''gather'')"
proof -
  let ?w2 = "timed_example\<lparr>kernel := ''scatter''\<rparr>"
  let ?w3 = "timed_example\<lparr>kernel := ''gather2''\<rparr>"
  have lw1: "map tolower ''GaTHer'' = ''gather''"
    and lw2: "map tolower ''SCATTER'' = ''scatter''"
    and lw3: "map tolower ''Gather2'' = ''gather2''"
    by (simp_all add: tolower_def char_of_eq_iff)
  have k1: "kernel timed_example = map tolower ''GaTHer''"
    unfolding lw1 by (simp add: timed_example_def)
  have k2: "kernel ?w2 = map tolower ''SCATTER''" unfolding lw2 by simp
  have k3: "kernel ?w3 = map tolower ''Gather2''" unfolding lw3 by simp
  have c1: "ci_equal ''GaTHer'' ''gather''"
    by (simp add: ci_equal_def same_letter_def is_upper_def)
  have c2: "ci_equal ''SCATTER'' ''scatter''"
    by (simp add: ci_equal_def same_letter_def is_upper_def)
  have c3: "\<not> ci_equal ''Gather2'' ''gather''" "\<not> ci_equal ''Gather2'' ''scatter''"
    by (simp_all add: ci_equal_def same_letter_def is_upper_def)
  have t3: "time_seconds ?w3 = DFinite False 7 0" by (simp add: timed_example_def)
  note d1 = run_dispatches_on_kernel [where s = timed_example and k = "''GaTHer''"
      and timed = True and d = dzero, THEN conjunct1, THEN mp, OF k1]
  from d1 c1 have r1: "run True dzero timed_example =
     (case gather True dzero timed_example of
        Aborts e s' \<Rightarrow> Aborts e s' | Returns _ s' \<Rightarrow> Returns 0 s')" by blast
  note d2 = run_dispatches_on_kernel [where s = ?w2 and k = "''SCATTER''"
      and timed = True and d = dzero, THEN conjunct1, THEN mp, OF k2]
  from d2 c2 have r2: "run True dzero ?w2 =
     (case scatter True dzero ?w2 of
        Aborts e s' \<Rightarrow> Aborts e s' | Returns _ s' \<Rightarrow> Returns 0 s')" by blast
  note d3 = run_dispatches_on_kernel [where s = ?w3 and k = "''Gather2''"
      and timed = True and d = dzero, THEN conjunct1, THEN mp, OF k3]
  from d3 c3 have r3: "run True dzero ?w3 = Returns (- 1) ?w3" by blast
  from Configuration_granted [of "[1, 0]" rand_count "''GaTHer''" 10 3] obtain c where
    co: "Configuration grant_all rand_count ''GaTHer'' [1, 0] 10 3 = Returns () c" by auto
  from run_dispatches_on_kernel [where alloc = grant_all and rnd = rand_count
      and k = "''GaTHer''" and p = "[1, 0]" and n = 10 and v = 3 and u = "()" and c = c,
      THEN conjunct2, THEN conjunct1, THEN mp, OF co]
  have "kernel c = ''gather''" unfolding lw1 .
  with co have C: "\<exists>c. Configuration grant_all rand_count ''GaTHer'' [1, 0] 10 3 =
      Returns () c \<and> kernel c = ''gather''" by blast
  have sz: "sized timed_example" and ne: "pattern timed_example \<noteq> []"
    and ke: "kernel timed_example = ''gather''"
    by (simp_all add: timed_example_def sized_def)
  from gather_keeps_sized [OF sz ne, of True dzero] obtain g where
    g: "gather True dzero timed_example = Returns () g" by blast
  from scatter_keeps_sized [OF sz ne, of True dzero] obtain h where
    h: "scatter True dzero timed_example = Returns () h" by blast
  from g ke have rr: "run True dzero timed_example = Returns 0 g" by (simp add: run_def)
  have rp: "report timed_example =
      Returns (''Spatter Serial Report'', base_report timed_example) timed_example"
    by (simp add: report_def)
  from run_dispatches_on_kernel [where a = timed_example and t = True and d' = dzero
      and a' = g and x = "()", THEN conjunct2, THEN conjunct2, THEN conjunct1] g ke
  have G: "\<exists>g. gather True dzero timed_example = Returns () g \<and> kernel g = ''gather''"
    by auto
  from run_dispatches_on_kernel [where a = timed_example and t = True and d' = dzero
      and a' = h and x = "()", THEN conjunct2, THEN conjunct2, THEN conjunct2,
      THEN conjunct1] h ke
  have H: "\<exists>g. scatter True dzero timed_example = Returns () g \<and> kernel g = ''gather''"
    by auto
  from run_dispatches_on_kernel [where a = timed_example and t = True and d' = dzero
      and a' = g and r = 0, THEN conjunct2, THEN conjunct2, THEN conjunct2, THEN conjunct2,
      THEN conjunct1] rr ke
  have R: "\<exists>g. run True dzero timed_example = Returns 0 g \<and> kernel g = ''gather''"
    by auto
  from run_dispatches_on_kernel [where a = timed_example and a' = timed_example
      and f = "(''Spatter Serial Report'', base_report timed_example)",
      THEN conjunct2, THEN conjunct2, THEN conjunct2, THEN conjunct2, THEN conjunct2] rp ke
  have P: "\<exists>f g. report timed_example = Returns f g \<and> kernel g = ''gather''"
    by auto
  from k1 c1 r1 k2 c2 r2 k3 c3 r3 t3 C G H R P show ?thesis by (intro conjI)
qed

end
